theory Spec2Isabelle
  imports Complex_Main "HOL-Library.Multiset"
begin

section \<open>Trust scoring engine v3 (app/trust/engine_v3.py)\<close>

text \<open>
  Python's unbounded integers are \<^typ>\<open>int\<close>.  The two float-typed inputs of the scoring
  functions (\<open>domain_expiry_years_ahead\<close>, \<open>collection_time_ms\<close>) and the float-valued
  \<open>confidence\<close> are rationals: the engine only compares the former with integer
  constants, and the latter is one small natural number divided by nine, compared with
  \<open>0.8\<close> and \<open>0.5\<close>, so IEEE rounding never decides a branch.  The category
  sub-scores are annotated \<open>float\<close> in the source but every value that is summed is an
  integer literal (or \<open>min(vt_community_score * 3, 30)\<close> over an \<open>int\<close> field), hence
  \<^typ>\<open>int\<close> here.
\<close>

datatype TrustGrade = AAA | AA | A | BBB | BB | B | CCC | D

datatype Recommendation =
  PROCEED | PROCEED_WITH_CAUTION | MANUAL_REVIEW | ENHANCED_DUE_DILIGENCE | REJECT

record RawSignals =
  target :: string
  domain_age_days :: int
  whois_org :: string
  whois_registrar :: string
  domain_expiry_years_ahead :: rat
  ssl_valid :: bool
  ssl_cert_type :: string
  ssl_org :: string
  first_cert_days_ago :: int
  total_certs_issued :: int
  cert_issuer :: string
  vt_malicious_count :: int
  vt_suspicious_count :: int
  vt_clean_count :: int
  vt_community_score :: int
  vt_categories :: "string list"
  vt_queried :: bool
  gsb_flagged :: bool
  gsb_queried :: bool
  dns_has_spf :: bool
  dns_has_dmarc :: bool
  dns_has_dkim :: bool
  dns_has_dnssec :: bool
  dns_has_mx :: bool
  http_has_hsts :: bool
  http_has_csp :: bool
  http_has_xframe :: bool
  http_has_xcontent_type :: bool
  http_has_referrer_policy :: bool
  http_has_permissions_policy :: bool
  http_status :: int
  has_wikipedia :: bool
  has_wikidata :: bool
  has_crunchbase :: bool
  wikidata_employee_count :: int
  wikidata_founding_year :: int
  wikidata_industry :: string
  social_twitter :: bool
  social_linkedin :: bool
  social_github :: bool
  social_facebook :: bool
  social_youtube :: bool
  social_instagram :: bool
  social_count :: int
  tranco_rank :: int
  has_structured_data :: bool
  has_org_schema :: bool
  has_status_page :: bool
  has_api_docs :: bool
  has_changelog :: bool
  has_security_txt :: bool
  has_robots_txt :: bool
  on_spam_blocklist :: bool
  on_fraud_blocklist :: bool
  on_sanctions_list :: bool
  sources_queried :: "string list"
  sources_responded :: "string list"
  collection_errors :: "string list"
  collection_time_ms :: rat

text \<open>The dataclass defaults: \<open>RawSignals()\<close>.\<close>

definition default_signals :: RawSignals where
  "default_signals = \<lparr>
     target = [], domain_age_days = 0, whois_org = [], whois_registrar = [],
     domain_expiry_years_ahead = 0,
     ssl_valid = False, ssl_cert_type = [], ssl_org = [], first_cert_days_ago = 0,
     total_certs_issued = 0, cert_issuer = [],
     vt_malicious_count = 0, vt_suspicious_count = 0, vt_clean_count = 0,
     vt_community_score = 0, vt_categories = [], vt_queried = False,
     gsb_flagged = False, gsb_queried = False,
     dns_has_spf = False, dns_has_dmarc = False, dns_has_dkim = False,
     dns_has_dnssec = False, dns_has_mx = False,
     http_has_hsts = False, http_has_csp = False, http_has_xframe = False,
     http_has_xcontent_type = False, http_has_referrer_policy = False,
     http_has_permissions_policy = False, http_status = 0,
     has_wikipedia = False, has_wikidata = False, has_crunchbase = False,
     wikidata_employee_count = 0, wikidata_founding_year = 0, wikidata_industry = [],
     social_twitter = False, social_linkedin = False, social_github = False,
     social_facebook = False, social_youtube = False, social_instagram = False,
     social_count = 0, tranco_rank = 0,
     has_structured_data = False, has_org_schema = False, has_status_page = False,
     has_api_docs = False, has_changelog = False, has_security_txt = False,
     has_robots_txt = False,
     on_spam_blocklist = False, on_fraud_blocklist = False, on_sanctions_list = False,
     sources_queried = [], sources_responded = [], collection_errors = [],
     collection_time_ms = 0 \<rparr>"

definition EA_CAP :: int where "EA_CAP = 300"
definition SI_CAP :: int where "SI_CAP = 300"
definition RS_CAP :: int where "RS_CAP = 250"
definition OM_CAP :: int where "OM_CAP = 150"

text \<open>
  A breakdown dictionary is built by assignments to pairwise different keys, so it is the
  list of its items in insertion order; \<open>sum(breakdown.values())\<close> is the sum of the
  second components.
\<close>

type_synonym breakdown = "(string \<times> int) list"

definition sum_values :: "breakdown \<Rightarrow> int" where
  "sum_values bd = sum_list (map snd bd)"

text \<open>\<open>breakdown[k] = v\<close> under a condition.\<close>

definition entry :: "bool \<Rightarrow> string \<Rightarrow> int \<Rightarrow> breakdown" where
  "entry c k v = (if c then [(k, v)] else [])"

text \<open>\<open>min(max(raw, 0), cap)\<close>.\<close>

definition clamp_score :: "int \<Rightarrow> int \<Rightarrow> int" where
  "clamp_score raw cap = min (max raw 0) cap"

text \<open>
  \<open>str.lower()\<close> on the ASCII letters (the strings of this theory are byte strings;
  Python lowers other scripts too).
\<close>

definition lower_char :: "char \<Rightarrow> char" where
  "lower_char c =
     (let n = (of_char c :: nat) in if 65 \<le> n \<and> n \<le> 90 then char_of (n + 32) else c)"

definition lower :: "string \<Rightarrow> string" where
  "lower s = map lower_char s"

definition existence_and_age_breakdown :: "RawSignals \<Rightarrow> breakdown" where
  "existence_and_age_breakdown s =
     (if domain_age_days s > 3650 then [(''domain_age'', 80)]
      else if domain_age_days s > 1825 then [(''domain_age'', 60)]
      else if domain_age_days s > 730 then [(''domain_age'', 40)]
      else if domain_age_days s > 365 then [(''domain_age'', 25)]
      else if domain_age_days s > 90 then [(''domain_age'', 10)]
      else if domain_age_days s > 0 \<and> domain_age_days s < 30
        then [(''domain_age_penalty'', - 50)]
      else [])
     @ entry (ssl_valid s) ''ssl_exists'' 15
     @ (if first_cert_days_ago s > 1825 then [(''first_cert_age'', 30)]
        else if first_cert_days_ago s > 730 then [(''first_cert_age'', 20)]
        else if first_cert_days_ago s > 365 then [(''first_cert_age'', 10)]
        else [])
     @ (if ssl_cert_type s = ''EV'' then [(''cert_type'', 25)]
        else if ssl_cert_type s = ''OV'' then [(''cert_type'', 10)]
        else [])
     @ entry (has_wikipedia s) ''wikipedia'' 50
     @ entry (has_wikidata s) ''wikidata'' 30
     @ entry (has_crunchbase s) ''crunchbase'' 20
     @ entry (whois_org s \<noteq> [] \<and> ssl_org s \<noteq> []
              \<and> take 8 (lower (whois_org s)) = take 8 (lower (ssl_org s)))
         ''org_consistency'' 20
     @ (if domain_expiry_years_ahead s \<ge> 3 then [(''domain_commitment'', 15)]
        else if domain_expiry_years_ahead s \<ge> 1 then [(''domain_commitment'', 5)]
        else [])"

definition score_existence_and_age :: "RawSignals \<Rightarrow> int \<times> breakdown" where
  "score_existence_and_age s =
     (let breakdown = existence_and_age_breakdown s;
          raw = sum_values breakdown
      in (clamp_score raw EA_CAP, breakdown))"

definition security_and_integrity_breakdown :: "RawSignals \<Rightarrow> breakdown" where
  "security_and_integrity_breakdown s =
     (if vt_queried s then
        (let flagged = vt_malicious_count s + vt_suspicious_count s in
         if flagged = 0 then [(''vt_clean'', 100)]
         else if flagged \<le> 2 then [(''vt_mostly_clean'', 40)]
         else if flagged \<le> 5 then [(''vt_suspicious_penalty'', - 50)]
         else [(''vt_dangerous_penalty'', - 200)])
      else [])
     @ (if gsb_queried s then
          (if \<not> gsb_flagged s then [(''gsb_clean'', 30)]
           else [(''gsb_flagged_penalty'', - 200)])
        else [])
     @ entry (dns_has_spf s) ''spf'' 25
     @ entry (dns_has_dmarc s) ''dmarc'' 30
     @ entry (dns_has_dkim s) ''dkim'' 15
     @ entry (dns_has_dnssec s) ''dnssec'' 20
     @ entry (http_has_hsts s) ''hsts'' 20
     @ entry (http_has_csp s) ''csp'' 20
     @ entry (http_has_xframe s) ''xframe'' 10
     @ entry (http_has_xcontent_type s) ''xcontent'' 10
     @ entry (http_has_referrer_policy s) ''referrer_policy'' 10
     @ entry (http_has_permissions_policy s) ''permissions_policy'' 10"

definition score_security_and_integrity :: "RawSignals \<Rightarrow> int \<times> breakdown" where
  "score_security_and_integrity s =
     (let breakdown = security_and_integrity_breakdown s;
          raw = sum_values breakdown
      in (clamp_score raw SI_CAP, breakdown))"

definition reputation_and_scale_breakdown :: "RawSignals \<Rightarrow> breakdown" where
  "reputation_and_scale_breakdown s =
     (if tranco_rank s > 0 then
        (if tranco_rank s \<le> 100 then [(''tranco'', 100)]
         else if tranco_rank s \<le> 1000 then [(''tranco'', 80)]
         else if tranco_rank s \<le> 10000 then [(''tranco'', 60)]
         else if tranco_rank s \<le> 100000 then [(''tranco'', 40)]
         else if tranco_rank s \<le> 500000 then [(''tranco'', 20)]
         else [(''tranco'', 10)])
      else [])
     @ entry (vt_community_score s > 0) ''vt_community'' (min (vt_community_score s * 3) 30)
     @ entry (social_twitter s) ''twitter'' 10
     @ entry (social_linkedin s) ''linkedin'' 15
     @ entry (social_github s) ''github'' 15
     @ entry (social_count s \<ge> 4) ''social_breadth'' 20"

definition score_reputation_and_scale :: "RawSignals \<Rightarrow> int \<times> breakdown" where
  "score_reputation_and_scale s =
     (let breakdown = reputation_and_scale_breakdown s;
          raw = sum_values breakdown
      in (clamp_score raw RS_CAP, breakdown))"

definition operational_maturity_breakdown :: "RawSignals \<Rightarrow> breakdown" where
  "operational_maturity_breakdown s =
     entry (has_structured_data s) ''structured_data'' 15
     @ entry (has_org_schema s) ''org_schema'' 15
     @ entry (has_status_page s) ''status_page'' 25
     @ entry (has_api_docs s) ''api_docs'' 20
     @ entry (has_changelog s) ''changelog'' 15
     @ entry (has_security_txt s) ''security_txt'' 15
     @ entry (total_certs_issued s > 5) ''cert_renewals'' 15
     @ entry (dns_has_mx s) ''mx_records'' 15
     @ entry (has_robots_txt s) ''robots_txt'' 15"

definition score_operational_maturity :: "RawSignals \<Rightarrow> int \<times> breakdown" where
  "score_operational_maturity s =
     (let breakdown = operational_maturity_breakdown s;
          raw = sum_values breakdown
      in (clamp_score raw OM_CAP, breakdown))"

subsection \<open>Hard caps\<close>

text \<open>The five guards of \<open>apply_hard_caps\<close>, in the order the function tests them.\<close>

definition cond_sanctioned :: "RawSignals \<Rightarrow> bool" where
  "cond_sanctioned s = on_sanctions_list s"

definition cond_fraud :: "RawSignals \<Rightarrow> bool" where
  "cond_fraud s = on_fraud_blocklist s"

definition cond_gsb :: "RawSignals \<Rightarrow> bool" where
  "cond_gsb s = (gsb_queried s \<and> gsb_flagged s)"

definition cond_vt :: "RawSignals \<Rightarrow> bool" where
  "cond_vt s = (vt_queried s \<and> vt_malicious_count s + vt_suspicious_count s \<ge> 6)"

definition cond_new_domain :: "RawSignals \<Rightarrow> bool" where
  "cond_new_domain s = (domain_age_days s > 0 \<and> domain_age_days s < 30 \<and> tranco_rank s = 0)"

definition apply_hard_caps :: "int \<Rightarrow> RawSignals \<Rightarrow> int \<times> string option" where
  "apply_hard_caps score s =
     (if cond_sanctioned s then (0, Some ''SANCTIONED'')
      else if cond_fraud s then (min score 50, Some ''FRAUD_BLOCKLISTED'')
      else if cond_gsb s then (min score 150, Some ''GOOGLE_SAFE_BROWSING_FLAGGED'')
      else if cond_vt s then (min score 200, Some ''VIRUSTOTAL_HIGH_FLAGS'')
      else if cond_new_domain s then (min score 100, Some ''NEW_DOMAIN_NO_REPUTATION'')
      else (score, None))"

text \<open>
  Every hard-cap condition that holds for \<open>s\<close>, with its ceiling and reason, in the order of
  the guards.  The ceilings and reasons are those of the corresponding \<open>return\<close> statements.
\<close>

definition applicable_caps :: "RawSignals \<Rightarrow> (int \<times> string) list" where
  "applicable_caps s =
     (if cond_sanctioned s then [(0, ''SANCTIONED'')] else [])
     @ (if cond_fraud s then [(50, ''FRAUD_BLOCKLISTED'')] else [])
     @ (if cond_gsb s then [(150, ''GOOGLE_SAFE_BROWSING_FLAGGED'')] else [])
     @ (if cond_vt s then [(200, ''VIRUSTOTAL_HIGH_FLAGS'')] else [])
     @ (if cond_new_domain s then [(100, ''NEW_DOMAIN_NO_REPUTATION'')] else [])"

text \<open>
  The reading of the specification ("only the single cap with the lowest resulting value
  and its reason is reported"): the applicable condition with the least ceiling.
\<close>

fun lowest_cap :: "(int \<times> string) list \<Rightarrow> (int \<times> string) option" where
  "lowest_cap [] = None"
| "lowest_cap (c # cs) =
     (case lowest_cap cs of
        None \<Rightarrow> Some c
      | Some m \<Rightarrow> if fst c \<le> fst m then Some c else Some m)"

definition spec_hard_caps :: "int \<Rightarrow> RawSignals \<Rightarrow> int \<times> string option" where
  "spec_hard_caps score s =
     (case lowest_cap (applicable_caps s) of
        None \<Rightarrow> (score, None)
      | Some (cap, reason) \<Rightarrow> (min score cap, Some reason))"

subsection \<open>compute_score\<close>

record TrustScoreResult =
  result_target :: string
  score :: int
  grade :: TrustGrade
  recommendation :: Recommendation
  existence_age :: int
  security_integrity :: int
  reputation_scale :: int
  operational_maturity :: int
  breakdown :: "(string \<times> breakdown) list"
  confidence :: rat
  confidence_label :: string
  sources_used :: nat
  sources_total :: nat
  cap_applied :: "string option"
  engine_version :: string

definition grade_of :: "int \<Rightarrow> TrustGrade" where
  "grade_of final_score =
     (if final_score \<ge> 850 then AAA
      else if final_score \<ge> 750 then AA
      else if final_score \<ge> 650 then A
      else if final_score \<ge> 550 then BBB
      else if final_score \<ge> 450 then BB
      else if final_score \<ge> 350 then B
      else if final_score \<ge> 200 then CCC
      else D)"

definition recommendation_of :: "int \<Rightarrow> Recommendation" where
  "recommendation_of final_score =
     (if final_score \<ge> 650 then PROCEED
      else if final_score \<ge> 450 then PROCEED_WITH_CAUTION
      else if final_score \<ge> 350 then MANUAL_REVIEW
      else if final_score \<ge> 200 then ENHANCED_DUE_DILIGENCE
      else REJECT)"

definition total_sources :: nat where
  "total_sources = 9"

text \<open>The score before the hard caps: \<open>raw_score = int(ea + si + rs + om)\<close>.\<close>

definition raw_score :: "RawSignals \<Rightarrow> int" where
  "raw_score signals =
     fst (score_existence_and_age signals) + fst (score_security_and_integrity signals)
     + fst (score_reputation_and_scale signals) + fst (score_operational_maturity signals)"

definition compute_score :: "RawSignals \<Rightarrow> TrustScoreResult" where
  "compute_score signals =
     (let (ea, ea_bd) = score_existence_and_age signals;
          (si, si_bd) = score_security_and_integrity signals;
          (rs, rs_bd) = score_reputation_and_scale signals;
          (om, om_bd) = score_operational_maturity signals;
          (final_score, cap) = apply_hard_caps (raw_score signals) signals;
          responded = length (sources_responded signals);
          conf = (if total_sources > 0 then of_nat responded / of_nat total_sources else 0);
          conf_label = (if conf \<ge> 8 / 10 then ''high''
                        else if conf \<ge> 5 / 10 then ''moderate'' else ''low'')
      in \<lparr> result_target = target signals,
           score = final_score,
           grade = grade_of final_score,
           recommendation = recommendation_of final_score,
           existence_age = ea,
           security_integrity = si,
           reputation_scale = rs,
           operational_maturity = om,
           breakdown = [(''existence_age'', ea_bd), (''security_integrity'', si_bd),
                        (''reputation_scale'', rs_bd), (''operational_maturity'', om_bd)],
           confidence = conf,
           confidence_label = conf_label,
           sources_used = responded,
           sources_total = total_sources,
           cap_applied = cap,
           engine_version = ''3.0.0'' \<rparr>)"


text \<open>The concrete inputs of the worked examples.\<close>

definition nine_sources :: "string list" where
  "nine_sources = [''tranco'', ''crtsh'', ''virustotal'', ''dns'', ''http_headers'', ''whois'',
     ''web_presence'', ''knowledge_graph'', ''social'']"

definition example_safe :: RawSignals where
  "example_safe = default_signals\<lparr> target := ''example-safe.com'',
     domain_age_days := 4000, ssl_valid := True, dns_has_spf := True, dns_has_dmarc := True,
     tranco_rank := 500, vt_malicious_count := 0,
     sources_queried := nine_sources, sources_responded := nine_sources \<rparr>"

definition flagged_new_domain :: RawSignals where
  "flagged_new_domain =
     default_signals\<lparr> domain_age_days := 5, gsb_flagged := True, gsb_queried := True \<rparr>"

definition fraud_and_flagged :: RawSignals where
  "fraud_and_flagged =
     default_signals\<lparr> gsb_flagged := True, gsb_queried := True, on_fraud_blocklist := True \<rparr>"

section \<open>Signal values (the \<open>Dict[str, Any]\<close> payloads)\<close>

text \<open>
  A signal mapping takes a signal name to a primitive value: \<open>None\<close>, a boolean, an integer,
  a float (a rational here), a short string or a list of strings.  These are the values
  that \<open>json.loads (json.dumps v)\<close> gives back unchanged, so a payload read back from the
  store is the payload that was written.
\<close>

datatype pyval = PNone | PBool bool | PInt int | PFloat rat | PStr string | PStrList "string list"

type_synonym signals = "string \<rightharpoonup> pyval"

text \<open>\<open>d.get(key)\<close>: an absent key reads as \<open>None\<close>.\<close>

definition dict_get :: "signals \<Rightarrow> string \<Rightarrow> pyval" where
  "dict_get d k = (case d k of None \<Rightarrow> PNone | Some v \<Rightarrow> v)"

text \<open>The numeric value of a Python number (\<open>True == 1\<close>, \<open>1 == 1.0\<close>).\<close>

fun py_num :: "pyval \<Rightarrow> rat option" where
  "py_num (PBool b) = Some (if b then 1 else 0)"
| "py_num (PInt i) = Some (of_int i)"
| "py_num (PFloat r) = Some r"
| "py_num PNone = None"
| "py_num (PStr s) = None"
| "py_num (PStrList l) = None"

text \<open>Python's \<open>==\<close> on these values.\<close>

definition py_eq :: "pyval \<Rightarrow> pyval \<Rightarrow> bool" where
  "py_eq a b =
     (case (py_num a, py_num b) of
        (Some x, Some y) \<Rightarrow> x = y
      | (None, None) \<Rightarrow> a = b
      | _ \<Rightarrow> False)"

text \<open>Truth value testing.\<close>

fun truthy :: "pyval \<Rightarrow> bool" where
  "truthy PNone = False"
| "truthy (PBool b) = b"
| "truthy (PInt i) = (i \<noteq> 0)"
| "truthy (PFloat r) = (r \<noteq> 0)"
| "truthy (PStr s) = (s \<noteq> [])"
| "truthy (PStrList l) = (l \<noteq> [])"

text \<open>\<open>isinstance(v, int)\<close>: \<open>bool\<close> is a subclass of \<open>int\<close>.\<close>

fun is_int :: "pyval \<Rightarrow> bool" where
  "is_int (PBool b) = True"
| "is_int (PInt i) = True"
| "is_int v = False"

text \<open>Decimal rendering, for the f-strings of the alerts.\<close>

definition digit_char :: "nat \<Rightarrow> char" where
  "digit_char n = char_of (48 + n)"

fun show_nat :: "nat \<Rightarrow> string" where
  "show_nat n = (if n < 10 then [digit_char n] else show_nat (n div 10) @ [digit_char (n mod 10)])"

declare show_nat.simps [simp del]

definition show_int :: "int \<Rightarrow> string" where
  "show_int i = (if i < 0 then CHR ''-'' # show_nat (nat (- i)) else show_nat (nat i))"

text \<open>\<open>str(v)\<close> for the two kinds of value the alerts format.\<close>

fun py_str_int :: "pyval \<Rightarrow> string" where
  "py_str_int (PBool b) = (if b then ''True'' else ''False'')"
| "py_str_int (PInt i) = show_int i"
| "py_str_int v = []"


section \<open>TrustChain (app/chain/trustchain.py)\<close>

definition GENESIS_HASH :: string where
  "GENESIS_HASH = replicate 64 CHR ''0''"

datatype Sensor =
  TRANCO | CRTSH | VIRUSTOTAL | DNS | HTTP_HEADERS | WHOIS | KNOWLEDGE_GRAPH | WEB_PRESENCE
  | SOCIAL | SAFE_BROWSING | SCORE

fun sensor_value :: "Sensor \<Rightarrow> string" where
  "sensor_value TRANCO = ''tranco''"
| "sensor_value CRTSH = ''crtsh''"
| "sensor_value VIRUSTOTAL = ''virustotal''"
| "sensor_value DNS = ''dns''"
| "sensor_value HTTP_HEADERS = ''http_headers''"
| "sensor_value WHOIS = ''whois''"
| "sensor_value KNOWLEDGE_GRAPH = ''knowledge_graph''"
| "sensor_value WEB_PRESENCE = ''web_presence''"
| "sensor_value SOCIAL = ''social''"
| "sensor_value SAFE_BROWSING = ''google_safe_browsing''"
| "sensor_value SCORE = ''score_computed''"

text \<open>One entry of a delta: \<open>{"was": .., "now": .., "severity": .., "alert": ..}\<close>.\<close>

record delta_entry =
  was :: pyval
  now :: pyval
  severity :: "string option"
  alert :: "string option"

type_synonym delta_map = "string \<rightharpoonup> delta_entry"

record Block =
  entity_id :: string
  sensor :: string
  block_index :: int
  observed_at :: string
  observed_at_unix :: rat
  signals :: signals
  prev_hash :: string
  block_hash :: string
  delta :: delta_map
  collection_time_ms :: rat
  sensor_version :: string
  node_id :: string

text \<open>
  The object that \<open>compute_hash\<close> serialises: entity_id, sensor, block_index, observed_at,
  signals and prev_hash, in this order.
\<close>

type_synonym hash_content = "string \<times> string \<times> int \<times> string \<times> signals \<times> string"

text \<open>
  \<open>compute_hash\<close>.  The digest \<open>hashlib.sha256(json.dumps(content, sort_keys=True,
  default=str).encode()).hexdigest()\<close> is library code: it is the parameter \<open>H\<close> of every
  function that hashes.
\<close>

definition hash_fields :: "Block \<Rightarrow> hash_content" where
  "hash_fields b =
     (entity_id b, sensor b, block_index b, observed_at b, signals b, prev_hash b)"

definition compute_hash :: "(hash_content \<Rightarrow> string) \<Rightarrow> Block \<Rightarrow> string" where
  "compute_hash H b = H (hash_fields b)"

definition verify :: "(hash_content \<Rightarrow> string) \<Rightarrow> Block \<Rightarrow> bool" where
  "verify H b = (block_hash b = compute_hash H b)"

text \<open>
  \<open>__post_init__\<close>.  The clock is \<open>(now.isoformat(), now.timestamp())\<close> and \<open>env_node\<close> is
  \<open>os.environ.get("M2A_NODE_ID", "node-0")\<close>.
\<close>

definition post_init ::
  "(hash_content \<Rightarrow> string) \<Rightarrow> string \<times> rat \<Rightarrow> string \<Rightarrow> Block \<Rightarrow> Block" where
  "post_init H clock env_node b =
     (let b1 = (if observed_at b = []
                then b\<lparr> observed_at := fst clock, observed_at_unix := snd clock \<rparr> else b);
          b2 = (if node_id b1 = [] then b1\<lparr> node_id := env_node \<rparr> else b1)
      in if block_hash b2 = [] then b2\<lparr> block_hash := compute_hash H b2 \<rparr> else b2)"

subsection \<open>compute_delta\<close>

datatype pyerror = TypeError

definition critical_keys :: "string list" where
  "critical_keys = [''dns_has_spf'', ''dns_has_dmarc'', ''ssl_valid'']"

text \<open>
  The body of the loop for one changed key.  The third branch evaluates \<open>old_val > 0\<close>, which
  raises \<open>TypeError\<close> when \<open>old_val\<close> is a non-empty string or list.
\<close>

definition delta_for :: "string \<Rightarrow> pyval \<Rightarrow> pyval \<Rightarrow> pyerror + delta_entry" where
  "delta_for key old_val new_val =
     (let d = \<lparr> was = old_val, now = new_val, severity = None, alert = None \<rparr> in
      if key \<in> set critical_keys \<and> old_val = PBool True \<and> new_val = PBool False then
        Inr (d\<lparr> severity := Some ''critical'', alert := Some (key @ '' was present, now missing'') \<rparr>)
      else if key = ''vt_malicious_count'' \<and> is_int new_val \<and> is_int old_val then
        (if the (py_num new_val) > the (py_num old_val)
         then Inr (d\<lparr> severity := Some ''high'',
                 alert := Some (''VirusTotal flags increased from '' @ py_str_int old_val
                                @ '' to '' @ py_str_int new_val) \<rparr>)
         else Inr d)
      else if key = ''tranco_rank'' then
        (if \<not> truthy old_val then Inr d
         else (case py_num old_val of
                 None \<Rightarrow> Inl TypeError
               | Some x \<Rightarrow>
                   if x > 0 \<and> (\<not> truthy new_val \<or> py_eq new_val (PInt 0))
                   then Inr (d\<lparr> severity := Some ''warning'',
                               alert := Some ''Dropped out of Tranco Top 1M'' \<rparr>)
                   else Inr d))
      else Inr d)"

definition key_changed :: "signals \<Rightarrow> signals \<Rightarrow> string \<Rightarrow> bool" where
  "key_changed old_signals new_signals key =
     ((old_signals key \<noteq> None \<or> new_signals key \<noteq> None)
      \<and> \<not> py_eq (dict_get old_signals key) (dict_get new_signals key))"

text \<open>
  \<open>compute_delta\<close>: an entry for every key of either mapping whose values differ.  The only
  statement of the loop that can raise is the comparison under \<open>tranco_rank\<close>, so the call
  raises exactly when that key is changed and its branch raises.
\<close>

definition compute_delta :: "signals \<Rightarrow> signals \<Rightarrow> pyerror + delta_map" where
  "compute_delta old_signals new_signals =
     (if key_changed old_signals new_signals ''tranco_rank''
         \<and> isl (delta_for ''tranco_rank'' (dict_get old_signals ''tranco_rank'')
                  (dict_get new_signals ''tranco_rank''))
      then Inl TypeError
      else Inr (\<lambda>key. if key_changed old_signals new_signals key
                       then (case delta_for key (dict_get old_signals key)
                                     (dict_get new_signals key) of
                               Inr d \<Rightarrow> Some d | Inl e \<Rightarrow> None)
                       else None))"

subsection \<open>TrustChainStore\<close>

text \<open>
  The hot store (Redis, database 2).  Its key families \<open>chain:<entity>:head\<close>,
  \<open>chain:<entity>:latest:<sensor>\<close>, \<open>block:<hash>\<close>, \<open>chain:<entity>:blocks\<close> and
  \<open>chain:entities\<close> are one component each.  The seven-day expiry of the \<open>block:<hash>\<close>
  keys is not part of the state: the statements below are about stores in which no block
  has expired.  The pipeline of \<open>append_block\<close> is executed as one transaction.
\<close>

record chain_head =
  head_hash :: string
  head_index :: int
  updated_at :: string

record chain_store =
  heads :: "string \<rightharpoonup> chain_head"
  latest :: "string \<times> string \<rightharpoonup> signals"
  block_store :: "string \<rightharpoonup> Block"
  block_lists :: "string \<Rightarrow> string list"
  entities :: "string set"

definition empty_store :: chain_store where
  "empty_store = \<lparr> heads = Map.empty, latest = Map.empty, block_store = Map.empty,
                    block_lists = (\<lambda>e. []), entities = {} \<rparr>"

definition get_chain_head :: "chain_store \<Rightarrow> string \<Rightarrow> string \<times> int" where
  "get_chain_head st e =
     (case heads st e of
        Some h \<Rightarrow> (head_hash h, head_index h)
      | None \<Rightarrow> (GENESIS_HASH, 0))"

definition get_last_signals :: "chain_store \<Rightarrow> string \<Rightarrow> string \<Rightarrow> signals option" where
  "get_last_signals st e sn = latest st (e, sn)"

text \<open>\<open>LPUSH\<close> followed by \<open>LTRIM 0 999\<close>.\<close>

definition lpush_ltrim :: "string \<Rightarrow> string list \<Rightarrow> string list" where
  "lpush_ltrim h hs = take 1000 (h # hs)"

definition append_block :: "chain_store \<Rightarrow> Block \<Rightarrow> Block \<times> chain_store" where
  "append_block st block =
     (block,
      st\<lparr> heads := (heads st)(entity_id block \<mapsto>
              \<lparr> head_hash = block_hash block, head_index = block_index block,
                updated_at = observed_at block \<rparr>),
          latest := (latest st)((entity_id block, sensor block) \<mapsto> signals block),
          block_store := (block_store st)(block_hash block \<mapsto> block),
          block_lists := (block_lists st)
              (entity_id block := lpush_ltrim (block_hash block) (block_lists st (entity_id block))),
          entities := insert (entity_id block) (entities st) \<rparr>)"

text \<open>The dataclass constructor as \<open>create_block\<close> calls it, before \<open>__post_init__\<close>.\<close>

definition Block_fields ::
  "string \<Rightarrow> string \<Rightarrow> int \<Rightarrow> signals \<Rightarrow> string \<Rightarrow> delta_map \<Rightarrow> rat \<Rightarrow> Block" where
  "Block_fields e sn idx sg prev d ctime =
     \<lparr> entity_id = e, sensor = sn, block_index = idx, observed_at = [], observed_at_unix = 0,
       signals = sg, prev_hash = prev, block_hash = [], delta = d, collection_time_ms = ctime,
       sensor_version = ''3.0.0'', node_id = [] \<rparr>"

definition create_block ::
  "(hash_content \<Rightarrow> string) \<Rightarrow> string \<times> rat \<Rightarrow> string \<Rightarrow> chain_store
   \<Rightarrow> string \<Rightarrow> string \<Rightarrow> signals \<Rightarrow> rat \<Rightarrow> pyerror + Block \<times> chain_store" where
  "create_block H clock env_node st e sn sg ctime =
     (let (prev, prev_index) = get_chain_head st e;
          new_index = (if prev \<noteq> GENESIS_HASH then prev_index + 1 else 0);
          old_signals = (case get_last_signals st e sn of Some d \<Rightarrow> d | None \<Rightarrow> Map.empty);
          dl = (if old_signals \<noteq> Map.empty then compute_delta old_signals sg
                else Inr Map.empty)
      in case dl of
           Inl err \<Rightarrow> Inl err
         | Inr d \<Rightarrow>
             Inr (append_block st
                    (post_init H clock env_node (Block_fields e sn new_index sg prev d ctime))))"

text \<open>
  \<open>LRANGE key 0 (limit - 1)\<close>: a negative stop counts from the end of the list.
\<close>

definition lrange_to :: "string list \<Rightarrow> int \<Rightarrow> string list" where
  "lrange_to hs stop =
     (if stop \<ge> 0 then take (nat (stop + 1)) hs
      else take (nat (int (length hs) + stop + 1)) hs)"

definition get_entity_history :: "chain_store \<Rightarrow> string \<Rightarrow> int \<Rightarrow> Block list" where
  "get_entity_history st e limit =
     List.map_filter (block_store st) (lrange_to (block_lists st e) (limit - 1))"

datatype chain_break =
  hash_mismatch int string string
  | chain_break int string string

record verify_result =
  verified :: bool
  blocks_checked :: nat
  breaks :: "chain_break list"
  chain_head_hash :: string
  message :: "string option"

text \<open>
  The loop of \<open>verify_chain\<close> over the sorted blocks; \<open>prev\<close> is \<open>blocks[i - 1]\<close>, absent for
  \<open>i = 0\<close>.  Each stored block is rebuilt with the dataclass constructor, so
  \<open>__post_init__\<close> runs on it, and the recomputed hash is compared with the stored one.
\<close>

fun check_blocks ::
  "(hash_content \<Rightarrow> string) \<Rightarrow> string \<times> rat \<Rightarrow> string \<Rightarrow> Block option \<Rightarrow> Block list
   \<Rightarrow> chain_break list" where
  "check_blocks H clock env_node prev [] = []"
| "check_blocks H clock env_node prev (block_data # rest) =
     (let recomputed = compute_hash H (post_init H clock env_node block_data) in
        (if recomputed \<noteq> block_hash block_data
         then [hash_mismatch (block_index block_data) recomputed (block_hash block_data)]
         else [])
        @ (case prev of
             None \<Rightarrow> []
           | Some p \<Rightarrow>
               if block_hash p \<noteq> prev_hash block_data
               then [chain_break (block_index block_data) (block_hash p) (prev_hash block_data)]
               else [])
        @ check_blocks H clock env_node (Some block_data) rest)"

definition verify_chain ::
  "(hash_content \<Rightarrow> string) \<Rightarrow> string \<times> rat \<Rightarrow> string \<Rightarrow> chain_store \<Rightarrow> string \<Rightarrow> int
   \<Rightarrow> verify_result" where
  "verify_chain H clock env_node st e limit =
     (let blocks = get_entity_history st e limit in
      if blocks = [] then
        \<lparr> verified = True, blocks_checked = 0, breaks = [], chain_head_hash = [],
          message = Some ''No blocks found'' \<rparr>
      else
        (let sorted_blocks = sort_key block_index blocks;
             found = check_blocks H clock env_node None sorted_blocks
         in \<lparr> verified = (found = []), blocks_checked = length sorted_blocks,
              breaks = found, chain_head_hash = block_hash (last sorted_blocks),
              message = None \<rparr>))"

definition default_limit :: int where
  "default_limit = 100"

text \<open>
  A single writer issuing \<open>create_block\<close> calls one after the other.  A call is described by
  its clock reading, entity, sensor, payload and collection time; a call that raises leaves
  the store as it was.  The run returns the final store and the blocks appended, oldest
  first.
\<close>

type_synonym create_call = "(string \<times> rat) \<times> string \<times> string \<times> signals \<times> rat"

definition create_step ::
  "(hash_content \<Rightarrow> string) \<Rightarrow> string \<Rightarrow> chain_store \<times> Block list \<Rightarrow> create_call
   \<Rightarrow> chain_store \<times> Block list" where
  "create_step H env_node acc c =
     (case c of (clock, e, sn, sg, ctime) \<Rightarrow>
        (case create_block H clock env_node (fst acc) e sn sg ctime of
           Inl err \<Rightarrow> acc
         | Inr (b, st') \<Rightarrow> (st', snd acc @ [b])))"

definition run_creates ::
  "(hash_content \<Rightarrow> string) \<Rightarrow> string \<Rightarrow> create_call list \<Rightarrow> chain_store \<times> Block list" where
  "run_creates H env_node calls = foldl (create_step H env_node) (empty_store, []) calls"

text \<open>The blocks of one entity among those appended.\<close>

definition chain_of :: "string \<Rightarrow> Block list \<Rightarrow> Block list" where
  "chain_of e bs = filter (\<lambda>b. entity_id b = e) bs"

text \<open>
  No digest of the run collides with another or with the genesis constant, and every
  clock reading is a non-empty ISO string.
\<close>

definition collision_free :: "Block list \<Rightarrow> bool" where
  "collision_free bs =
     (distinct (map block_hash bs) \<and> GENESIS_HASH \<notin> set (map block_hash bs))"

definition clocks_set :: "create_call list \<Rightarrow> bool" where
  "clocks_set calls = list_all (\<lambda>c. fst (fst c) \<noteq> []) calls"

text \<open>
  A stand-in digest for the worked examples: it separates two contents that differ in entity,
  sensor, (small non-negative) index, timestamp, predecessor hash or the integer under the
  payload key \<open>k\<close>.
\<close>

definition toy_digest :: "hash_content \<Rightarrow> string" where
  "toy_digest c =
     (case c of (e, sn, idx, t, sg, prev) \<Rightarrow>
        ''#'' @ e @ ''/'' @ sn @ ''/'' @ replicate (nat idx) CHR ''i'' @ ''/'' @ t @ ''/''
        @ (case sg ''k'' of Some (PInt v) \<Rightarrow> replicate (nat v) CHR ''v'' | _ \<Rightarrow> []) @ ''/'' @ prev)"


section \<open>Sensor network (app/compute/sensors.py): which sources count as responded\<close>

text \<open>
  What awaiting \<open>asyncio.wait_for(coro, timeout=15.0)\<close> does: it returns the collector's
  mapping, or raises (a timeout is an exception too).
\<close>

datatype 'a outcome = Returned 'a | Raised string

text \<open>\<open>_timed_collect\<close>: both branches return a tuple.\<close>

definition timed_collect :: "string \<Rightarrow> signals outcome \<Rightarrow> rat \<Rightarrow> string \<times> signals \<times> rat" where
  "timed_collect nm res elapsed =
     (case res of
        Returned result \<Rightarrow> (nm, result, elapsed)
      | Raised e \<Rightarrow> (nm, Map.empty, elapsed))"

text \<open>An element of the list that \<open>asyncio.gather(..., return_exceptions=True)\<close> returns.\<close>

datatype gathered = GTuple "string \<times> signals \<times> rat" | GException string

text \<open>The keys of the \<open>sensors\<close> dictionary, in insertion order.\<close>

definition sensors_launched :: "string \<Rightarrow> Sensor list" where
  "sensors_launched domain =
     (if domain \<noteq> [] then [TRANCO, CRTSH, VIRUSTOTAL, DNS, HTTP_HEADERS, WHOIS, WEB_PRESENCE]
      else [])
     @ [KNOWLEDGE_GRAPH, SOCIAL]"

text \<open>
  The loop over \<open>results_list\<close>, restricted to the two lists it appends to:
  \<open>sources_responded\<close> and \<open>collection_errors\<close>.
\<close>

fun process_results ::
  "(Sensor \<times> gathered) list \<Rightarrow> string list \<times> string list \<Rightarrow> string list \<times> string list" where
  "process_results [] acc = acc"
| "process_results ((sn, GTuple r) # rest) (responded, errors) =
     process_results rest (responded @ [sensor_value sn], errors)"
| "process_results ((sn, GException e) # rest) (responded, errors) =
     process_results rest (responded, errors @ [sensor_value sn @ '': '' @ take 100 e])"

text \<open>
  The projection of \<open>observe_entity\<close> on \<open>(sources_queried, sources_responded,
  collection_errors)\<close>.  \<open>domain\<close> is \<open>parse_target(target)["domain"]\<close> and \<open>result_of\<close> tells
  how each sensor's coroutine ends.
\<close>

definition observe_entity_sources ::
  "string \<Rightarrow> (Sensor \<Rightarrow> signals outcome) \<Rightarrow> string list \<times> string list \<times> string list" where
  "observe_entity_sources domain result_of =
     (let sensors = sensors_launched domain;
          results_list = map (\<lambda>sn. (sn, GTuple (timed_collect (sensor_value sn) (result_of sn) 0)))
                             sensors
      in (map sensor_value sensors, process_results results_list ([], [])))"

text \<open>
  A name with no domain (for instance the target \<open>ab\<close>): two sensors are launched, and the
  knowledge-graph collector times out.
\<close>

definition name_only_signals :: RawSignals where
  "name_only_signals =
     (let (queried, responded, errors) =
            observe_entity_sources []
              (\<lambda>sn. if sn = KNOWLEDGE_GRAPH then Raised ''timeout'' else Returned Map.empty)
      in default_signals\<lparr> target := ''ab'', sources_queried := queried,
           sources_responded := responded, collection_errors := errors \<rparr>)"

section \<open>Circuit breaker (app/compute/pipeline.py)\<close>

text \<open>The state is the string the source stores; \<open>time.time()\<close> is the argument \<open>t\<close>.\<close>

record CircuitBreaker =
  name :: string
  threshold :: int
  recovery_timeout :: int
  failures :: int
  last_failure_time :: rat
  state :: string

definition CircuitBreaker_init :: "string \<Rightarrow> int \<Rightarrow> int \<Rightarrow> CircuitBreaker" where
  "CircuitBreaker_init nm th rt =
     \<lparr> name = nm, threshold = th, recovery_timeout = rt, failures = 0,
       last_failure_time = 0, state = ''closed'' \<rparr>"

definition can_execute :: "rat \<Rightarrow> CircuitBreaker \<Rightarrow> bool \<times> CircuitBreaker" where
  "can_execute t b =
     (if state b = ''closed'' then (True, b)
      else if state b = ''open'' then
        (if t - last_failure_time b > of_int (recovery_timeout b)
         then (True, b\<lparr> state := ''half-open'' \<rparr>)
         else (False, b))
      else (True, b))"

definition record_success :: "CircuitBreaker \<Rightarrow> CircuitBreaker" where
  "record_success b = b\<lparr> failures := 0, state := ''closed'' \<rparr>"

definition record_failure :: "rat \<Rightarrow> CircuitBreaker \<Rightarrow> CircuitBreaker" where
  "record_failure t b =
     (let b1 = b\<lparr> failures := failures b + 1, last_failure_time := t \<rparr>
      in if failures b1 \<ge> threshold b1 then b1\<lparr> state := ''open'' \<rparr> else b1)"

text \<open>
  \<open>_guarded\<close> for a collector that has a breaker, split at its one suspension point: the
  gate runs when the task starts, the bookkeeping when the awaited collector has ended.
\<close>

definition guarded_start :: "rat \<Rightarrow> CircuitBreaker \<Rightarrow> bool \<times> CircuitBreaker" where
  "guarded_start t b = can_execute t b"

definition guarded_finish :: "rat \<Rightarrow> 'a outcome \<Rightarrow> CircuitBreaker \<Rightarrow> CircuitBreaker" where
  "guarded_finish t res b =
     (case res of Returned r \<Rightarrow> record_success b | Raised e \<Rightarrow> record_failure t b)"

text \<open>The calls a breaker receives, and the state they lead to from a fresh breaker.\<close>

datatype breaker_call = CanExecute rat | RecordSuccess | RecordFailure rat

fun breaker_step :: "CircuitBreaker \<Rightarrow> breaker_call \<Rightarrow> CircuitBreaker" where
  "breaker_step b (CanExecute t) = snd (can_execute t b)"
| "breaker_step b RecordSuccess = record_success b"
| "breaker_step b (RecordFailure t) = record_failure t b"

definition breaker_after :: "string \<Rightarrow> int \<Rightarrow> int \<Rightarrow> breaker_call list \<Rightarrow> CircuitBreaker" where
  "breaker_after nm th rt calls = foldl breaker_step (CircuitBreaker_init nm th rt) calls"

text \<open>
  The \<open>web\<close> breaker (threshold 3, recovery 60 s) after three failures, the last at time 10,
  and a first \<open>can_execute\<close> at time 100: it is half-open and the trial call is in flight.
\<close>

definition web_trial_pending :: CircuitBreaker where
  "web_trial_pending =
     breaker_after ''web'' 3 60
       [RecordFailure 8, RecordFailure 9, RecordFailure 10, CanExecute 100]"

section \<open>Score cache (app/compute/cache.py)\<close>

text \<open>A JSON value, as \<open>json.loads\<close> returns it.\<close>

datatype json =
  JNull | JBool bool | JInt int | JFloat rat | JStr string | JList "json list"
  | JDict "(string \<times> json) list"

type_synonym score_dict = "string \<rightharpoonup> json"

record ttl_config =
  TTL_REGISTERED :: int
  TTL_UNREGISTERED :: int
  TTL_FAILED :: int
  TTL_PREVIEW :: int

text \<open>The values when the environment sets none of the four variables.\<close>

definition default_ttls :: ttl_config where
  "default_ttls = \<lparr> TTL_REGISTERED = 3600, TTL_UNREGISTERED = 21600, TTL_FAILED = 300,
                     TTL_PREVIEW = 86400 \<rparr>"

definition LOCK_TTL :: int where
  "LOCK_TTL = 30"

text \<open>The ASCII characters that \<open>str.strip()\<close> removes.\<close>

definition is_space :: "char \<Rightarrow> bool" where
  "is_space c = (c \<in> set [CHR '' '', CHR 0x09, CHR 0x0A, CHR 0x0B, CHR 0x0C, CHR 0x0D,
                             CHR 0x1C, CHR 0x1D, CHR 0x1E, CHR 0x1F])"

definition strip :: "string \<Rightarrow> string" where
  "strip s = rev (dropWhile is_space (rev (dropWhile is_space s)))"

definition remove_prefix :: "string \<Rightarrow> string \<Rightarrow> string" where
  "remove_prefix prefix clean =
     (if take (length prefix) clean = prefix then drop (length prefix) clean else clean)"

definition rstrip_slash :: "string \<Rightarrow> string" where
  "rstrip_slash s = rev (dropWhile (\<lambda>c. c = CHR ''/'') (rev s))"

text \<open>
  \<open>_normalize_key\<close>; \<open>sha\<close> is \<open>hashlib.sha256(..).hexdigest()\<close> on the encoded string.
\<close>

definition normalize_key :: "(string \<Rightarrow> string) \<Rightarrow> string \<Rightarrow> string" where
  "normalize_key sha tgt =
     (let clean = lower (strip tgt);
          clean = foldl (\<lambda>c prefix. remove_prefix prefix c) clean
                    [''https://'', ''http://'', ''www.''];
          clean = rstrip_slash clean
      in take 24 (sha clean))"

text \<open>
  The cache object together with the Redis database it talks to.  A hex digest contains no
  colon, so the key families \<open>m2a:score:<key>\<close>, \<open>m2a:score:meta:<key>\<close> and
  \<open>m2a:score:locks:<key>\<close> never meet: each is a map of its own, from the full key to the
  value and the time at which it expires (a hash written by \<open>HINCRBY\<close> alone never expires).
\<close>

record ScoreCache =
  enabled :: bool
  client :: bool
  scores :: "string \<rightharpoonup> score_dict \<times> rat"
  metas :: "string \<rightharpoonup> (string \<rightharpoonup> json) \<times> rat option"
  locks :: "string \<rightharpoonup> rat"

definition ScoreCache_init :: ScoreCache where
  "ScoreCache_init = \<lparr> enabled = True, client = False, scores = Map.empty, metas = Map.empty,
                        locks = Map.empty \<rparr>"

text \<open>
  \<open>_connect\<close>; \<open>up\<close> says that the redis library is installed and the server answers.  The
  second component says whether a client was returned.
\<close>

definition connect :: "bool \<Rightarrow> ScoreCache \<Rightarrow> ScoreCache \<times> bool" where
  "connect up c =
     (if client c then (c, True)
      else if up then (c\<lparr> client := True \<rparr>, True)
      else (c\<lparr> enabled := False, client := False \<rparr>, False))"

definition score_key :: "(string \<Rightarrow> string) \<Rightarrow> string \<Rightarrow> string" where
  "score_key sha tgt = ''m2a:score:'' @ normalize_key sha tgt"

definition meta_key :: "(string \<Rightarrow> string) \<Rightarrow> string \<Rightarrow> string" where
  "meta_key sha tgt = ''m2a:score:meta:'' @ normalize_key sha tgt"

definition lock_key :: "(string \<Rightarrow> string) \<Rightarrow> string \<Rightarrow> string" where
  "lock_key sha tgt = ''m2a:score:locks:'' @ normalize_key sha tgt"

text \<open>A key with an expiry is readable strictly before it.\<close>

definition live_score :: "ScoreCache \<Rightarrow> string \<Rightarrow> rat \<Rightarrow> score_dict option" where
  "live_score c k t =
     (case scores c k of
        Some (d, expires) \<Rightarrow> if t < expires then Some d else None
      | None \<Rightarrow> None)"

definition live_meta :: "ScoreCache \<Rightarrow> string \<Rightarrow> rat \<Rightarrow> ((string \<rightharpoonup> json) \<times> rat option) option" where
  "live_meta c k t =
     (case metas c k of
        Some (h, Some expires) \<Rightarrow> if t < expires then Some (h, Some expires) else None
      | Some (h, None) \<Rightarrow> Some (h, None)
      | None \<Rightarrow> None)"

text \<open>\<open>HINCRBY meta_key hits 1\<close>.\<close>

definition hincrby_hits :: "ScoreCache \<Rightarrow> string \<Rightarrow> rat \<Rightarrow> ScoreCache" where
  "hincrby_hits c k t =
     (case live_meta c k t of
        Some (h, ex) \<Rightarrow>
          c\<lparr> metas := (metas c)(k \<mapsto>
               (h(''hits'' \<mapsto> (case h ''hits'' of Some (JInt n) \<Rightarrow> JInt (n + 1) | _ \<Rightarrow> JInt 1)), ex)) \<rparr>
      | None \<Rightarrow> c\<lparr> metas := (metas c)(k \<mapsto> ([''hits'' \<mapsto> JInt 1], None)) \<rparr>)"

text \<open>\<open>ScoreCache.get\<close> at time \<open>t\<close>.\<close>

definition cache_get ::
  "(string \<Rightarrow> string) \<Rightarrow> bool \<Rightarrow> rat \<Rightarrow> ScoreCache \<Rightarrow> string \<Rightarrow> score_dict option \<times> ScoreCache" where
  "cache_get sha up t c tgt =
     (if \<not> enabled c then (None, c)
      else (let (c1, ok) = connect up c in
            if \<not> ok then (None, c1)
            else if \<not> up then (None, c1)
            else (case live_score c1 (score_key sha tgt) t of
                    Some data \<Rightarrow>
                      (Some (data(''_cache'' \<mapsto> JStr ''hit'')), hincrby_hits c1 (meta_key sha tgt) t)
                  | None \<Rightarrow> (None, c1))))"

definition choose_ttl :: "ttl_config \<Rightarrow> bool \<Rightarrow> bool \<Rightarrow> bool \<Rightarrow> int" where
  "choose_ttl cfg is_registered is_preview failed =
     (if failed then TTL_FAILED cfg
      else if is_preview then TTL_PREVIEW cfg
      else if is_registered then TTL_REGISTERED cfg
      else TTL_UNREGISTERED cfg)"

text \<open>
  \<open>ScoreCache.set\<close> at time \<open>t\<close>.  It returns its boolean, the cache, and the caller's
  dictionary, which the method updates in place before it writes.  \<open>SETEX\<close> with a
  non-positive expiry is an error reply, caught like a lost connection.
\<close>

definition cache_set ::
  "(string \<Rightarrow> string) \<Rightarrow> ttl_config \<Rightarrow> bool \<Rightarrow> rat \<Rightarrow> ScoreCache \<Rightarrow> string \<Rightarrow> score_dict
   \<Rightarrow> bool \<Rightarrow> bool \<Rightarrow> bool \<Rightarrow> bool \<times> ScoreCache \<times> score_dict" where
  "cache_set sha cfg up t c tgt score_data is_registered is_preview failed =
     (if \<not> enabled c then (False, c, score_data)
      else (let (c1, ok) = connect up c in
            if \<not> ok then (False, c1, score_data)
            else (let ttl = choose_ttl cfg is_registered is_preview failed;
                      data = score_data(''_cached_at'' \<mapsto> JFloat t, ''_ttl'' \<mapsto> JInt ttl)
                  in if \<not> up \<or> ttl \<le> 0 then (False, c1, data)
                     else (True,
                           c1\<lparr> scores := (scores c1)(score_key sha tgt \<mapsto> (data, t + of_int ttl)),
                               metas := (metas c1)(meta_key sha tgt \<mapsto>
                                 ((case live_meta c1 (meta_key sha tgt) t of
                                     Some (h, ex) \<Rightarrow> h | None \<Rightarrow> Map.empty)
                                  (''target'' \<mapsto> JStr (take 200 tgt), ''cached_at'' \<mapsto> JFloat t,
                                   ''ttl'' \<mapsto> JInt ttl,
                                   ''is_registered'' \<mapsto> JInt (if is_registered then 1 else 0),
                                   ''hits'' \<mapsto> JInt 0),
                                  Some (t + of_int (ttl + 3600)))) \<rparr>,
                           data))))"

definition acquire_lock ::
  "(string \<Rightarrow> string) \<Rightarrow> bool \<Rightarrow> rat \<Rightarrow> ScoreCache \<Rightarrow> string \<Rightarrow> bool \<times> ScoreCache" where
  "acquire_lock sha up t c tgt =
     (if \<not> enabled c then (True, c)
      else (let (c1, ok) = connect up c in
            if \<not> ok then (True, c1)
            else if \<not> up then (True, c1)
            else (case locks c1 (lock_key sha tgt) of
                    Some expires \<Rightarrow>
                      if t < expires then (False, c1)
                      else (True, c1\<lparr> locks := (locks c1)(lock_key sha tgt \<mapsto> t + of_int LOCK_TTL) \<rparr>)
                  | None \<Rightarrow>
                      (True, c1\<lparr> locks := (locks c1)(lock_key sha tgt \<mapsto> t + of_int LOCK_TTL) \<rparr>))))"

definition release_lock ::
  "(string \<Rightarrow> string) \<Rightarrow> bool \<Rightarrow> ScoreCache \<Rightarrow> string \<Rightarrow> ScoreCache" where
  "release_lock sha up c tgt =
     (if \<not> enabled c then c
      else (let (c1, ok) = connect up c in
            if \<not> ok then c1
            else if \<not> up then c1
            else c1\<lparr> locks := (locks c1)(lock_key sha tgt := None) \<rparr>))"

text \<open>A stand-in for the digest of the cache key in the worked examples.\<close>

definition toy_sha :: "string \<Rightarrow> string" where
  "toy_sha s = s"

text \<open>A result to store in the worked examples.\<close>

definition stored_result :: score_dict where
  "stored_result = [''score'' \<mapsto> JInt 500]"

section \<open>Pipeline entry points\<close>

text \<open>
  Both entry points are modelled around their \<open>try\<close> statement.  What the body of the
  \<open>try\<close> computes before it writes the cache (collection and scoring) is the argument
  \<open>body\<close>: the response it built, or the exception it raised.  The result is \<open>Inr\<close> of the
  returned dictionary, or \<open>Inl\<close> of an exception that leaves the function.  \<open>t\<close> is the time
  of entry, \<open>t_done\<close> the time at which the body has ended.
\<close>

definition error_response :: "string \<Rightarrow> string \<Rightarrow> score_dict" where
  "error_response tgt e =
     [''target'' \<mapsto> JStr tgt, ''score'' \<mapsto> JInt 0, ''grade'' \<mapsto> JStr ''D'',
      ''recommendation'' \<mapsto> JStr ''REJECT'', ''confidence'' \<mapsto> JFloat 0,
      ''confidence_label'' \<mapsto> JStr ''error'', ''is_verified'' \<mapsto> JBool False,
      ''is_registered'' \<mapsto> JBool False, ''engine_version'' \<mapsto> JStr ''3.0.0'',
      ''error'' \<mapsto> JStr e]"

text \<open>\<open>score_entity\<close> (app/compute/pipeline_v3.py).\<close>

definition score_entity ::
  "(string \<Rightarrow> string) \<Rightarrow> ttl_config \<Rightarrow> bool \<Rightarrow> rat \<Rightarrow> rat \<Rightarrow> ScoreCache \<Rightarrow> string \<Rightarrow> bool
   \<Rightarrow> score_dict outcome \<Rightarrow> (string + score_dict) \<times> ScoreCache" where
  "score_entity sha cfg up t t_done c tgt force_refresh body =
     (let (cached, c1) = (if \<not> force_refresh then cache_get sha up t c tgt else (None, c)) in
      case cached of
        Some d \<Rightarrow> (Inr (d(''_source'' \<mapsto> JStr ''cache'')), c1)
      | None \<Rightarrow>
          (let (lock, c2) = acquire_lock sha up t c1 tgt;
               (cached2, c3) = (if \<not> lock then cache_get sha up (t + 3 / 2) c2 tgt
                                else (None, c2))
           in case cached2 of
                Some d \<Rightarrow> (Inr d, c3)
              | None \<Rightarrow>
                  (case body of
                     Returned response \<Rightarrow>
                       (let (ok, c4, response') =
                              cache_set sha cfg up t_done c3 tgt response False False False
                        in (Inr response', release_lock sha up c4 tgt))
                   | Raised e \<Rightarrow>
                       (Inr (error_response tgt e), release_lock sha up c3 tgt))))"

text \<open>
  \<open>compute_trust_score\<close> (app/compute/pipeline.py).  The body yields the result dictionary
  and \<open>is_registered\<close>.  \<open>fallback\<close> is \<open>calculate_trust_score(...).to_full()\<close> of the v2
  engine with no signals, evaluated inside the handler; \<open>info\<close> stands for the
  \<open>_pipeline\<close> entries that carry measured times.
\<close>

definition compute_trust_score ::
  "(string \<Rightarrow> string) \<Rightarrow> ttl_config \<Rightarrow> bool \<Rightarrow> rat \<Rightarrow> rat \<Rightarrow> ScoreCache \<Rightarrow> string \<Rightarrow> bool
   \<Rightarrow> bool \<Rightarrow> (score_dict \<times> bool) outcome \<Rightarrow> score_dict outcome \<Rightarrow> json
   \<Rightarrow> (string + score_dict) \<times> ScoreCache" where
  "compute_trust_score sha cfg up t t_done c tgt force_refresh is_preview body fallback info =
     (let (cached, c1) = (if \<not> force_refresh then cache_get sha up t c tgt else (None, c)) in
      case cached of
        Some d \<Rightarrow> (Inr (d(''_pipeline'' \<mapsto> info)), c1)
      | None \<Rightarrow>
          (let (lock, c2) = acquire_lock sha up t c1 tgt;
               (cached2, c3) = (if \<not> lock then cache_get sha up (t + 3 / 2) c2 tgt
                                else (None, c2))
           in case cached2 of
                Some d \<Rightarrow>
                  (Inr (d(''_pipeline'' \<mapsto> JDict [(''source'', JStr ''cache_after_lock_wait'')])), c3)
              | None \<Rightarrow>
                  (case body of
                     Returned (result, is_registered) \<Rightarrow>
                       (let (ok, c4, result') =
                              cache_set sha cfg up t_done c3 tgt result is_registered is_preview False
                        in (Inr (result'(''_pipeline'' \<mapsto> info)), release_lock sha up c4 tgt))
                   | Raised e \<Rightarrow>
                       (case fallback of
                          Raised e' \<Rightarrow> (Inl e', release_lock sha up c3 tgt)
                        | Returned fb \<Rightarrow>
                            (let result = fb(''_pipeline'' \<mapsto>
                                   JDict [(''source'', JStr ''fallback''), (''error'', JStr e)]);
                                 (ok, c4, result') =
                                   cache_set sha cfg up t_done c3 tgt result False False True
                             in (Inr result', release_lock sha up c4 tgt))))))"


section \<open>Predicates on chains\<close>

text \<open>
  A list of blocks is linked from \<open>prev\<close> at index \<open>idx\<close>: every block names the hash of
  the one before it (the first names \<open>prev\<close>), the indexes count up from \<open>idx\<close>, and every
  stored hash is the hash of the block's own fields.
\<close>

fun chain_linked :: "(hash_content \<Rightarrow> string) \<Rightarrow> string \<Rightarrow> int \<Rightarrow> Block list \<Rightarrow> bool" where
  "chain_linked H prev idx [] = True"
| "chain_linked H prev idx (b # bs) =
     (prev_hash b = prev \<and> block_index b = idx \<and> block_hash b = compute_hash H b
      \<and> chain_linked H (block_hash b) (idx + 1) bs)"

text \<open>
  The store agrees with the blocks appended so far: heads, block lists and stored blocks.
\<close>

definition chain_inv :: "(hash_content \<Rightarrow> string) \<Rightarrow> chain_store \<Rightarrow> Block list \<Rightarrow> bool" where
  "chain_inv H st bs =
     ((\<forall>e. get_chain_head st e =
             (if chain_of e bs = [] then (GENESIS_HASH, 0)
              else (block_hash (last (chain_of e bs)), block_index (last (chain_of e bs)))))
      \<and> (\<forall>e. chain_linked H GENESIS_HASH 0 (chain_of e bs))
      \<and> (\<forall>e. block_lists st e = take 1000 (rev (map block_hash (chain_of e bs))))
      \<and> (\<forall>h b. block_store st h = Some b \<longrightarrow> b \<in> set bs \<and> h = block_hash b))"

text \<open>Two blocks agree on everything \<open>verify_chain\<close> reads.\<close>

definition same_hashed :: "Block \<Rightarrow> Block \<Rightarrow> bool" where
  "same_hashed b1 b2 = (hash_fields b1 = hash_fields b2 \<and> block_hash b1 = block_hash b2)"

text \<open>
  The worked example: two observations of \<open>example.com\<close>, five seconds apart, recorded on
  an empty store by node \<open>node-0\<close>.
\<close>

definition two_calls :: "create_call list" where
  "two_calls =
     [((''2024-01-01T00:00:00+00:00'', 1704067200), ''example.com'', ''dns'',
       [''k'' \<mapsto> PInt 1], 12),
      ((''2024-01-01T00:00:05+00:00'', 1704067205), ''example.com'', ''whois'',
       [''k'' \<mapsto> PInt 2], 7)]"

definition first_hash :: string where
  "first_hash = toy_digest (''example.com'', ''dns'', 0, ''2024-01-01T00:00:00+00:00'',
                            [''k'' \<mapsto> PInt 1], GENESIS_HASH)"

definition second_hash :: string where
  "second_hash = toy_digest (''example.com'', ''whois'', 1, ''2024-01-01T00:00:05+00:00'',
                             [''k'' \<mapsto> PInt 2], first_hash)"

definition first_block :: Block where
  "first_block =
     \<lparr> entity_id = ''example.com'', sensor = ''dns'', block_index = 0,
       observed_at = ''2024-01-01T00:00:00+00:00'', observed_at_unix = 1704067200,
       signals = [''k'' \<mapsto> PInt 1], prev_hash = GENESIS_HASH, block_hash = first_hash,
       delta = Map.empty, collection_time_ms = 12, sensor_version = ''3.0.0'',
       node_id = ''node-0'' \<rparr>"

definition second_block :: Block where
  "second_block =
     \<lparr> entity_id = ''example.com'', sensor = ''whois'', block_index = 1,
       observed_at = ''2024-01-01T00:00:05+00:00'', observed_at_unix = 1704067205,
       signals = [''k'' \<mapsto> PInt 2], prev_hash = first_hash, block_hash = second_hash,
       delta = Map.empty, collection_time_ms = 7, sensor_version = ''3.0.0'',
       node_id = ''node-0'' \<rparr>"

definition example_store :: chain_store where
  "example_store = fst (run_creates toy_digest ''node-0'' two_calls)"

text \<open>The first block of the example with its payload changed and its hash left alone.\<close>

definition tampered_block :: Block where
  "tampered_block = first_block\<lparr> signals := [''k'' \<mapsto> PInt 7] \<rparr>"

definition tampered_store :: chain_store where
  "tampered_store =
     example_store\<lparr> block_store := (block_store example_store)(first_hash \<mapsto> tampered_block) \<rparr>"

text \<open>The same block with the five fields outside the hash changed.\<close>

definition relabelled_block :: Block where
  "relabelled_block =
     first_block\<lparr> delta := [''k'' \<mapsto> \<lparr> was = PInt 0, now = PInt 1, severity = None,
                                      alert = None \<rparr>],
                  collection_time_ms := 999, sensor_version := ''9.9.9'',
                  node_id := ''node-7'', observed_at_unix := 0 \<rparr>"

definition verify_clock :: "string \<times> rat" where
  "verify_clock = (''2024-01-02T00:00:00+00:00'', 1704153600)"

text \<open>
  A longer example: the same observation recorded 101 times, so that the first block is
  the 101st newest.  Its first block is \<open>first_block\<close>.
\<close>

definition repeated_call :: create_call where
  "repeated_call =
     ((''2024-01-01T00:00:00+00:00'', 1704067200), ''example.com'', ''dns'',
      [''k'' \<mapsto> PInt 1], 12)"

definition long_store :: chain_store where
  "long_store = fst (run_creates toy_digest ''node-0'' (replicate 101 repeated_call))"

definition long_tampered_store :: chain_store where
  "long_tampered_store =
     long_store\<lparr> block_store := (block_store long_store)(first_hash \<mapsto> tampered_block) \<rparr>"

section \<open>Properties of the scoring engine\<close>

lemmas score_defs = score_existence_and_age_def score_security_and_integrity_def
  score_reputation_and_scale_def score_operational_maturity_def

lemmas breakdown_defs = existence_and_age_breakdown_def security_and_integrity_breakdown_def
  reputation_and_scale_breakdown_def operational_maturity_breakdown_def

lemmas cap_defs = EA_CAP_def SI_CAP_def RS_CAP_def OM_CAP_def

lemmas cond_defs = cond_sanctioned_def cond_fraud_def cond_gsb_def cond_vt_def
  cond_new_domain_def

lemma compute_score_fields:
  "existence_age (compute_score s) = fst (score_existence_and_age s)"
  "security_integrity (compute_score s) = fst (score_security_and_integrity s)"
  "reputation_scale (compute_score s) = fst (score_reputation_and_scale s)"
  "operational_maturity (compute_score s) = fst (score_operational_maturity s)"
  "score (compute_score s) = fst (apply_hard_caps (raw_score s) s)"
  "cap_applied (compute_score s) = snd (apply_hard_caps (raw_score s) s)"
  "confidence (compute_score s) = of_nat (length (sources_responded s)) / 9"
  "grade (compute_score s) = grade_of (fst (apply_hard_caps (raw_score s) s))"
  "recommendation (compute_score s) = recommendation_of (fst (apply_hard_caps (raw_score s) s))"
  by (simp_all add: compute_score_def Let_def split_beta total_sources_def)

text \<open>
  In \<open>observe_entity\<close> every launched sensor ends up in \<open>sources_responded\<close>, whatever its
  collector did: \<open>_timed_collect\<close> turns an exception into a tuple, and a tuple is what the
  loop counts.
\<close>

lemma observe_entity_sources_all_respond:
  "observe_entity_sources domain result_of =
     (map sensor_value (sensors_launched domain), map sensor_value (sensors_launched domain), [])"
  by (simp add: observe_entity_sources_def sensors_launched_def Let_def)

lemma name_only_lists:
  "sources_queried name_only_signals = [''knowledge_graph'', ''social'']"
  "sources_responded name_only_signals = [''knowledge_graph'', ''social'']"
  "collection_errors name_only_signals = []"
  by (simp_all add: name_only_signals_def observe_entity_sources_all_respond
      sensors_launched_def)

text \<open>
  C1, as stated, fails.  For a target without a domain two sensors are launched and both are
  listed as responded; the confidence is 2/9, not 2/2.
\<close>

theorem confidence_not_responded_over_queried:
  "sources_queried name_only_signals = [''knowledge_graph'', ''social'']
   \<and> sources_responded name_only_signals = [''knowledge_graph'', ''social'']
   \<and> confidence (compute_score name_only_signals) = 2 / 9
   \<and> confidence (compute_score name_only_signals)
       \<noteq> of_nat (length (sources_responded name_only_signals))
         / of_nat (length (sources_queried name_only_signals))"
  by (simp add: compute_score_fields name_only_lists)

text \<open>
  C1, amended.  The confidence returned by \<open>compute_score\<close> is the number of entries of
  \<open>sources_responded\<close> divided by the constant 9; it is never negative, it is at most 1
  exactly when at most nine sources are listed, and it is at most 1 for every list of
  responded sources that \<open>observe_entity\<close> builds.
\<close>

theorem confidence_is_responded_over_nine:
  "confidence (compute_score s) = of_nat (length (sources_responded s)) / of_nat total_sources
   \<and> total_sources = 9
   \<and> 0 \<le> confidence (compute_score s)
   \<and> (confidence (compute_score s) \<le> 1) = (length (sources_responded s) \<le> 9)
   \<and> confidence (compute_score (s\<lparr> sources_responded :=
         fst (snd (observe_entity_sources domain result_of)) \<rparr>)) \<le> 1"
  by (simp add: compute_score_fields total_sources_def observe_entity_sources_all_respond
      sensors_launched_def)

text \<open>
  C2.  Each category sub-score of a result is the clamp of the sum of its breakdown to
  \<open>[0, cap]\<close>, with the caps 300, 300, 250 and 150; the score handed to the hard caps is
  the sum of the four sub-scores, and the final score and cap reason are what
  \<open>apply_hard_caps\<close> makes of that sum.
\<close>

theorem category_scores_clamped_and_summed:
  "(let r = compute_score s in
      existence_age r = clamp_score (sum_values (snd (score_existence_and_age s))) 300
    \<and> security_integrity r = clamp_score (sum_values (snd (score_security_and_integrity s))) 300
    \<and> reputation_scale r = clamp_score (sum_values (snd (score_reputation_and_scale s))) 250
    \<and> operational_maturity r = clamp_score (sum_values (snd (score_operational_maturity s))) 150
    \<and> 0 \<le> existence_age r \<and> existence_age r \<le> 300
    \<and> 0 \<le> security_integrity r \<and> security_integrity r \<le> 300
    \<and> 0 \<le> reputation_scale r \<and> reputation_scale r \<le> 250
    \<and> 0 \<le> operational_maturity r \<and> operational_maturity r \<le> 150
    \<and> raw_score s = existence_age r + security_integrity r + reputation_scale r
          + operational_maturity r
    \<and> (score r, cap_applied r) = apply_hard_caps (raw_score s) s)"
  unfolding Let_def compute_score_fields
  by (simp add: score_defs Let_def cap_defs raw_score_def clamp_score_def)

text \<open>
  C3, as stated, fails.  For a five-day-old unranked domain that Safe Browsing flags, both
  the safe-browsing cap (150) and the new-domain cap (100) apply; the function reports the
  former, with ceiling 150.
\<close>

theorem hard_caps_not_lowest:
  "apply_hard_caps 500 flagged_new_domain = (150, Some ''GOOGLE_SAFE_BROWSING_FLAGGED'')
   \<and> applicable_caps flagged_new_domain
       = [(150, ''GOOGLE_SAFE_BROWSING_FLAGGED''), (100, ''NEW_DOMAIN_NO_REPUTATION'')]
   \<and> spec_hard_caps 500 flagged_new_domain = (100, Some ''NEW_DOMAIN_NO_REPUTATION'')
   \<and> apply_hard_caps 500 flagged_new_domain \<noteq> spec_hard_caps 500 flagged_new_domain"
  by (simp add: apply_hard_caps_def applicable_caps_def spec_hard_caps_def cond_defs
      flagged_new_domain_def default_signals_def)

text \<open>
  C3, amended.  For a non-negative score the result of \<open>apply_hard_caps\<close> is at most the
  input; the reason reported is that of the first applicable condition in the order
  sanctions, fraud blocklist, safe browsing, VirusTotal, new domain, and the result is the
  minimum of the score and that condition's ceiling.  This is the lowest applicable cap
  unless the new-domain condition holds together with the safe-browsing or the VirusTotal
  condition while neither sanctions nor fraud applies.
\<close>

theorem hard_caps_first_applicable:
  assumes "0 \<le> sc"
  shows "fst (apply_hard_caps sc s) \<le> sc
    \<and> apply_hard_caps sc s =
        (case applicable_caps s of [] \<Rightarrow> (sc, None) | (c, r) # rest \<Rightarrow> (min sc c, Some r))
    \<and> (cond_new_domain s \<and> (cond_gsb s \<or> cond_vt s) \<and> \<not> cond_sanctioned s \<and> \<not> cond_fraud s
        \<or> apply_hard_caps sc s = spec_hard_caps sc s)"
  using assms
  by (auto simp add: apply_hard_caps_def applicable_caps_def spec_hard_caps_def)

theorem hard_caps_first_applicable_witness:
  "(0::int) \<le> 500
   \<and> fst (apply_hard_caps 500 fraud_and_flagged) \<le> 500
   \<and> apply_hard_caps 500 fraud_and_flagged = (50, Some ''FRAUD_BLOCKLISTED'')
   \<and> apply_hard_caps 500 fraud_and_flagged = spec_hard_caps 500 fraud_and_flagged"
proof -
  have h: "(0::int) \<le> 500" by simp
  have c: "\<not> cond_new_domain fraud_and_flagged"
    by (simp add: cond_defs fraud_and_flagged_def default_signals_def)
  have a: "applicable_caps fraud_and_flagged
             = [(50, ''FRAUD_BLOCKLISTED''), (150, ''GOOGLE_SAFE_BROWSING_FLAGGED'')]"
    by (simp add: applicable_caps_def cond_defs fraud_and_flagged_def default_signals_def)
  from hard_caps_first_applicable [OF h, of fraud_and_flagged] c a
  show ?thesis by auto
qed

lemma raw_score_example_safe: "raw_score example_safe = 230"
  by (simp add: raw_score_def score_defs Let_def example_safe_def default_signals_def
      breakdown_defs entry_def sum_values_def clamp_score_def cap_defs lower_def)

lemma hard_caps_example_safe: "apply_hard_caps x example_safe = (x, None)"
  by (simp add: apply_hard_caps_def cond_defs example_safe_def default_signals_def)

text \<open>
  C4, as stated, fails.  With the listed signals the composite is 230, below the A band,
  and the recommendation is not PROCEED.
\<close>

theorem example_safe_not_grade_a:
  "score (compute_score example_safe) < 650
   \<and> recommendation (compute_score example_safe) \<noteq> PROCEED"
  unfolding compute_score_fields raw_score_example_safe hard_caps_example_safe
  by (simp add: recommendation_of_def)

text \<open>
  C4, amended.  For that input \<open>compute_score\<close> returns confidence 1, no hard cap, the
  sub-scores 95, 55, 80 and 0, the composite 230 (grade CCC) and the recommendation
  ENHANCED_DUE_DILIGENCE.
\<close>

theorem example_safe_result:
  "confidence (compute_score example_safe) = 1
   \<and> cap_applied (compute_score example_safe) = None
   \<and> existence_age (compute_score example_safe) = 95
   \<and> security_integrity (compute_score example_safe) = 55
   \<and> reputation_scale (compute_score example_safe) = 80
   \<and> operational_maturity (compute_score example_safe) = 0
   \<and> score (compute_score example_safe) = 230
   \<and> grade (compute_score example_safe) = CCC
   \<and> recommendation (compute_score example_safe) = ENHANCED_DUE_DILIGENCE"
  unfolding compute_score_fields raw_score_example_safe hard_caps_example_safe
  by (simp add: grade_of_def recommendation_of_def example_safe_def nine_sources_def
      score_defs Let_def default_signals_def breakdown_defs entry_def sum_values_def
      clamp_score_def cap_defs lower_def)


section \<open>Properties of the circuit breaker\<close>

lemma web_trial_pending_state:
  "web_trial_pending = \<lparr> name = ''web'', threshold = 3, recovery_timeout = 60, failures = 3,
      last_failure_time = 10, state = ''half-open'' \<rparr>"
  by (simp add: web_trial_pending_def breaker_after_def CircuitBreaker_init_def
      record_failure_def can_execute_def Let_def)

text \<open>
  C5: the code does not keep the first part of the claim.  While the trial call of a
  half-open breaker is in flight, \<open>can_execute\<close> answers \<open>True\<close> again (and to every
  further call), leaving the breaker as it is.
\<close>

theorem half_open_allows_second_trial:
  "state web_trial_pending = ''half-open''
   \<and> can_execute 100 web_trial_pending = (True, web_trial_pending)
   \<and> can_execute 101 (snd (can_execute 100 web_trial_pending)) = (True, web_trial_pending)"
  by (simp add: web_trial_pending_state can_execute_def)

text \<open>The two other parts of C5 hold: a success closes the breaker with no failures.\<close>

lemma record_success_resets:
  "state (record_success b) = ''closed'' \<and> failures (record_success b) = 0"
  by (simp add: record_success_def)

text \<open>
  A breaker that is not closed has reached its threshold: the invariant of every sequence
  of calls on a fresh breaker.
\<close>

lemma breaker_step_invariant:
  "(state b \<noteq> ''closed'' \<longrightarrow> threshold b \<le> failures b) \<Longrightarrow>
   (state (breaker_step b c) \<noteq> ''closed''
      \<longrightarrow> threshold (breaker_step b c) \<le> failures (breaker_step b c))"
  by (cases c) (auto simp add: can_execute_def record_success_def record_failure_def Let_def)

lemma foldl_breaker_invariant:
  "(state b \<noteq> ''closed'' \<longrightarrow> threshold b \<le> failures b) \<Longrightarrow>
   (state (foldl breaker_step b cs) \<noteq> ''closed''
      \<longrightarrow> threshold (foldl breaker_step b cs) \<le> failures (foldl breaker_step b cs))"
proof (induction cs arbitrary: b)
  case Nil
  then show ?case by simp
next
  case (Cons c cs)
  show ?case using Cons.IH [OF breaker_step_invariant [OF Cons.prems]] by simp
qed

lemma breaker_after_invariant:
  "state (breaker_after nm th rt cs) \<noteq> ''closed''
   \<Longrightarrow> threshold (breaker_after nm th rt cs) \<le> failures (breaker_after nm th rt cs)"
  unfolding breaker_after_def
  using foldl_breaker_invariant [of "CircuitBreaker_init nm th rt" cs]
  by (simp add: CircuitBreaker_init_def)

text \<open>
  A failure recorded in the half-open state opens the breaker again and restarts the
  recovery window from the time of that failure.
\<close>

lemma half_open_failure_reopens:
  assumes "b = breaker_after nm th rt cs" and "state b = ''half-open''"
  shows "state (record_failure t b) = ''open'' \<and> last_failure_time (record_failure t b) = t
    \<and> (t' - t \<le> of_int (recovery_timeout b)
         \<longrightarrow> fst (can_execute t' (record_failure t b)) = False)"
  using assms breaker_after_invariant [of nm th rt cs]
  by (auto simp add: record_failure_def Let_def can_execute_def)

section \<open>Properties of the score cache\<close>

lemma cache_set_ok:
  assumes "enabled c" and "0 < choose_ttl cfg reg prev failed"
  shows "fst (cache_set sha cfg True t c tgt result reg prev failed) = True"
    and "snd (snd (cache_set sha cfg True t c tgt result reg prev failed))
           = result(''_cached_at'' \<mapsto> JFloat t,
                    ''_ttl'' \<mapsto> JInt (choose_ttl cfg reg prev failed))"
    and "enabled (fst (snd (cache_set sha cfg True t c tgt result reg prev failed)))"
    and "scores (fst (snd (cache_set sha cfg True t c tgt result reg prev failed)))
           (score_key sha tgt)
           = Some (result(''_cached_at'' \<mapsto> JFloat t,
                          ''_ttl'' \<mapsto> JInt (choose_ttl cfg reg prev failed)),
                   t + of_int (choose_ttl cfg reg prev failed))"
  using assms by (simp_all add: cache_set_def connect_def Let_def)

lemma cache_get_live:
  assumes "enabled c" and "scores c (score_key sha tgt) = Some (d, ex)" and "t < ex"
  shows "fst (cache_get sha True t c tgt) = Some (d(''_cache'' \<mapsto> JStr ''hit''))"
  using assms by (simp add: cache_get_def connect_def Let_def live_score_def)

lemma default_tier_ttls:
  "choose_ttl default_ttls False False False = 21600"
  "choose_ttl default_ttls True False False = 3600"
  "choose_ttl default_ttls reg True False = 86400"
  "choose_ttl default_ttls reg prev True = 300"
  by (simp_all add: choose_ttl_def default_ttls_def)

text \<open>
  C8, as stated, fails.  One second after an unregistered-tier \<open>set\<close> of
  \<open>{"score": 500}\<close>, \<open>get\<close> returns a dictionary that also holds \<open>_cache\<close>, \<open>_ttl\<close> and
  \<open>_cached_at\<close>; it is not equal to the dictionary that was passed in.
\<close>

theorem cache_get_differs_from_stored:
  "(case fst (cache_get toy_sha True 1
               (fst (snd (cache_set toy_sha default_ttls True 0 ScoreCache_init ''example.com''
                       stored_result False False False))) ''example.com'') of
      None \<Rightarrow> False
    | Some d \<Rightarrow> d ''_cache'' = Some (JStr ''hit'') \<and> stored_result ''_cache'' = None
         \<and> d ''_ttl'' = Some (JInt 21600) \<and> stored_result ''_ttl'' = None
         \<and> d \<noteq> stored_result)"
proof -
  have e: "enabled ScoreCache_init" by (simp add: ScoreCache_init_def)
  have p: "0 < choose_ttl default_ttls False False False"
    by (simp add: default_tier_ttls)
  have l: "(1::rat) < 0 + of_int (choose_ttl default_ttls False False False)"
    by (simp add: default_tier_ttls)
  have g: "fst (cache_get toy_sha True 1
               (fst (snd (cache_set toy_sha default_ttls True 0 ScoreCache_init ''example.com''
                       stored_result False False False))) ''example.com'')
      = Some (stored_result(''_cached_at'' \<mapsto> JFloat 0, ''_ttl'' \<mapsto> JInt 21600,
                            ''_cache'' \<mapsto> JStr ''hit''))"
    using cache_get_live [OF cache_set_ok(3) [OF e p] cache_set_ok(4) [OF e p] l]
    by (simp add: default_tier_ttls)
  have n: "stored_result ''_cache'' = None" "stored_result ''_ttl'' = None"
    by (simp_all add: stored_result_def)
  have "stored_result(''_cached_at'' \<mapsto> JFloat 0, ''_ttl'' \<mapsto> JInt 21600,
                      ''_cache'' \<mapsto> JStr ''hit'') \<noteq> stored_result"
    using n by (metis fun_upd_same option.distinct(1))
  then show ?thesis unfolding g using n by simp
qed

text \<open>
  C8, amended.  With the cache enabled and Redis reachable, for every target, result and
  tier whose TTL is positive, \<open>set\<close> at time \<open>t_set\<close> followed by \<open>get\<close> at a time before
  \<open>t_set + ttl\<close> returns the stored result with three bookkeeping keys written over it:
  \<open>_cached_at = t_set\<close> and \<open>_ttl = ttl\<close> (by \<open>set\<close>) and \<open>_cache = "hit"\<close> (by \<open>get\<close>);
  every other key has the value that was stored.
\<close>

theorem cache_round_trip:
  assumes "enabled c" and "0 < choose_ttl cfg reg prev failed"
    and "t_get < t_set + of_int (choose_ttl cfg reg prev failed)"
  shows "fst (cache_get sha True t_get
               (fst (snd (cache_set sha cfg True t_set c tgt result reg prev failed))) tgt)
         = Some (result(''_cached_at'' \<mapsto> JFloat t_set,
                        ''_ttl'' \<mapsto> JInt (choose_ttl cfg reg prev failed),
                        ''_cache'' \<mapsto> JStr ''hit''))"
  using cache_get_live [OF cache_set_ok(3) [OF assms(1,2)] cache_set_ok(4) [OF assms(1,2)]
      assms(3)]
  by simp

theorem cache_round_trip_witness:
  "enabled ScoreCache_init
   \<and> 0 < choose_ttl default_ttls False False True
   \<and> (299::rat) < 0 + of_int (choose_ttl default_ttls False False True)
   \<and> fst (cache_get toy_sha True 299
            (fst (snd (cache_set toy_sha default_ttls True 0 ScoreCache_init ''example.com''
                    stored_result False False True))) ''example.com'')
       = Some (stored_result(''_cached_at'' \<mapsto> JFloat 0, ''_ttl'' \<mapsto> JInt 300,
                             ''_cache'' \<mapsto> JStr ''hit''))"
proof -
  have e: "enabled ScoreCache_init" by (simp add: ScoreCache_init_def)
  have p: "0 < choose_ttl default_ttls False False True"
    by (simp add: default_tier_ttls)
  have l: "(299::rat) < 0 + of_int (choose_ttl default_ttls False False True)"
    by (simp add: default_tier_ttls)
  from cache_round_trip [OF e p l, of toy_sha "''example.com''" stored_result] e p l
  show ?thesis by (simp add: default_tier_ttls)
qed

section \<open>Properties of the pipeline entry points\<close>

lemma connect_scores: "scores (fst (connect up c)) = scores c"
  by (simp add: connect_def)

lemma hincrby_scores: "scores (hincrby_hits c k t) = scores c"
  by (simp add: hincrby_hits_def split: option.splits prod.splits)

lemma cache_get_scores: "scores (snd (cache_get sha up t c tgt)) = scores c"
  by (simp add: cache_get_def Let_def split_beta connect_scores hincrby_scores
      split: option.splits)

lemma acquire_lock_scores: "scores (snd (acquire_lock sha up t c tgt)) = scores c"
  by (simp add: acquire_lock_def Let_def split_beta connect_scores split: option.splits)

lemma release_lock_scores: "scores (release_lock sha up c tgt) = scores c"
  by (simp add: release_lock_def Let_def split_beta connect_scores)

text \<open>\<open>score_entity\<close> always returns a dictionary: no exception of its body leaves it.\<close>

lemma score_entity_returns:
  "\<exists>d. fst (score_entity sha cfg up t t_done c tgt force_refresh body) = Inr d"
  by (simp add: score_entity_def Let_def split_beta split: option.splits outcome.splits)

text \<open>When its body raises, \<open>score_entity\<close> writes no score to the cache at all.\<close>

lemma score_entity_failure_leaves_scores:
  "scores (snd (score_entity sha cfg up t t_done c tgt force_refresh (Raised e))) = scores c"
  by (simp add: score_entity_def Let_def split_beta cache_get_scores acquire_lock_scores
      release_lock_scores split: option.splits)

text \<open>
  C9: the code does not keep the claim for \<open>score_entity\<close>.  On a fresh, reachable cache a
  raising body yields the minimal error response, and nothing is cached: a \<open>get\<close> one
  second later misses.  \<open>compute_trust_score\<close> on the same input stores its fallback for
  300 seconds.
\<close>

theorem score_entity_failure_not_cached:
  "fst (score_entity toy_sha default_ttls True 0 5 ScoreCache_init ''example.com'' False
          (Raised ''TypeError''))
     = Inr (error_response ''example.com'' ''TypeError'')
   \<and> scores (snd (score_entity toy_sha default_ttls True 0 5 ScoreCache_init ''example.com'' False
          (Raised ''TypeError''))) = Map.empty
   \<and> fst (cache_get toy_sha True 6
          (snd (score_entity toy_sha default_ttls True 0 5 ScoreCache_init ''example.com'' False
             (Raised ''TypeError''))) ''example.com'') = None
   \<and> scores (snd (compute_trust_score toy_sha default_ttls True 0 5 ScoreCache_init
          ''example.com'' False False (Raised ''TypeError'') (Returned Map.empty) JNull))
        (score_key toy_sha ''example.com'')
     = Some ([''_pipeline'' \<mapsto>
                JDict [(''source'', JStr ''fallback''), (''error'', JStr ''TypeError'')],
              ''_cached_at'' \<mapsto> JFloat 5, ''_ttl'' \<mapsto> JInt 300], 305)"
  by (simp add: score_entity_def compute_trust_score_def cache_get_def acquire_lock_def
      release_lock_def cache_set_def connect_def ScoreCache_init_def Let_def live_score_def
      choose_ttl_def default_ttls_def)

section \<open>Properties of the TrustChain\<close>

lemma hash_fields_post_init:
  "hash_fields (post_init H clock env_node b) =
     (entity_id b, sensor b, block_index b,
      if observed_at b = [] then fst clock else observed_at b, signals b, prev_hash b)"
  by (simp add: post_init_def hash_fields_def Let_def)

lemma post_init_Block_fields:
  "post_init H clock env_node (Block_fields e sn idx sg prev d ct) =
     \<lparr> entity_id = e, sensor = sn, block_index = idx, observed_at = fst clock,
       observed_at_unix = snd clock, signals = sg, prev_hash = prev,
       block_hash = H (e, sn, idx, fst clock, sg, prev), delta = d,
       collection_time_ms = ct, sensor_version = ''3.0.0'',
       node_id = env_node \<rparr>"
  by (simp add: post_init_def Block_fields_def Let_def compute_hash_def hash_fields_def)

lemma chain_linked_append:
  "chain_linked H p i (xs @ [b]) =
     (chain_linked H p i xs
      \<and> prev_hash b = (if xs = [] then p else block_hash (last xs))
      \<and> block_index b = i + int (length xs)
      \<and> block_hash b = compute_hash H b)"
  by (induction xs arbitrary: p i) auto

lemma chain_linked_last:
  "chain_linked H p i xs \<Longrightarrow> xs \<noteq> [] \<Longrightarrow> block_index (last xs) = i + int (length xs) - 1"
  by (induction xs arbitrary: p i) auto

lemma chain_linked_nth:
  "chain_linked H p i xs \<Longrightarrow> k < length xs \<Longrightarrow>
     block_index (xs ! k) = i + int k
     \<and> block_hash (xs ! k) = compute_hash H (xs ! k)
     \<and> prev_hash (xs ! k) = (if k = 0 then p else block_hash (xs ! (k - 1)))"
proof (induction xs arbitrary: p i k)
  case Nil
  then show ?case by simp
next
  case (Cons x xs)
  show ?case
  proof (cases k)
    case 0
    with Cons.prems show ?thesis by simp
  next
    case (Suc j)
    from Cons.prems(1) have l: "chain_linked H (block_hash x) (i + 1) xs"
      unfolding chain_linked.simps by blast
    from Cons.prems(2) Suc have j: "j < length xs" by simp
    from Cons.IH [OF l j] Suc show ?thesis by (cases j) auto
  qed
qed

text \<open>What a successful create_block returns.\<close>

lemma create_block_Inr:
  assumes "create_block H clock env_node st e sn sg ct = Inr (b, st')"
  shows "entity_id b = e \<and> sensor b = sn \<and> signals b = sg \<and> observed_at b = fst clock
    \<and> prev_hash b = fst (get_chain_head st e)
    \<and> block_index b = (if fst (get_chain_head st e) \<noteq> GENESIS_HASH
                         then snd (get_chain_head st e) + 1 else 0)
    \<and> block_hash b = compute_hash H b
    \<and> st' = snd (append_block st b)"
  using assms
  by (auto simp add: create_block_def Let_def split_beta post_init_Block_fields append_block_def
      compute_hash_def hash_fields_def split: sum.splits)

lemma chain_of_snoc:
  "chain_of e (bs @ [b]) = chain_of e bs @ (if entity_id b = e then [b] else [])"
  by (simp add: chain_of_def)

lemma take_lpush: "take 1000 (h # take 1000 hs) = take 1000 (h # hs)"
  by (simp add: take_Cons')

lemma chain_inv_step:
  assumes inv: "chain_inv H st bs"
    and ng: "GENESIS_HASH \<notin> set (map block_hash bs)"
    and cb: "create_block H clock env_node st e sn sg ct = Inr (b, st')"
  shows "chain_inv H st' (bs @ [b])"
proof -
  note f = create_block_Inr [OF cb]
  let ?c = "chain_of e bs"
  from inv have head: "get_chain_head st e =
      (if ?c = [] then (GENESIS_HASH, 0) else (block_hash (last ?c), block_index (last ?c)))"
    and linked: "\<And>e'. chain_linked H GENESIS_HASH 0 (chain_of e' bs)"
    and lists: "\<And>e'. block_lists st e' = take 1000 (rev (map block_hash (chain_of e' bs)))"
    and store: "\<And>h x. block_store st h = Some x \<Longrightarrow> x \<in> set bs \<and> h = block_hash x"
    and heads: "\<And>e'. get_chain_head st e' =
             (if chain_of e' bs = [] then (GENESIS_HASH, 0)
              else (block_hash (last (chain_of e' bs)), block_index (last (chain_of e' bs))))"
    by (simp_all add: chain_inv_def)
  have st': "st' = snd (append_block st b)" using f by simp
  have lastng: "?c \<noteq> [] \<Longrightarrow> block_hash (last ?c) \<noteq> GENESIS_HASH"
  proof -
    assume "?c \<noteq> []"
    then have "last ?c \<in> set ?c" by simp
    then have "last ?c \<in> set bs" by (simp add: chain_of_def)
    with ng show ?thesis by (metis image_eqI set_map)
  qed
  have prev: "prev_hash b = (if ?c = [] then GENESIS_HASH else block_hash (last ?c))"
    using f head by simp
  have idx: "block_index b = 0 + int (length ?c)"
  proof (cases "?c = []")
    case True
    with f head show ?thesis by simp
  next
    case False
    with f head lastng have "block_index b = block_index (last ?c) + 1" by simp
    with chain_linked_last [OF linked False] show ?thesis by simp
  qed
  have l1: "\<And>e'. chain_linked H GENESIS_HASH 0 (chain_of e' (bs @ [b]))"
    using linked prev idx f by (simp add: chain_of_snoc chain_linked_append)
  have h1: "\<And>e'. get_chain_head st' e' =
             (if chain_of e' (bs @ [b]) = [] then (GENESIS_HASH, 0)
              else (block_hash (last (chain_of e' (bs @ [b]))),
                    block_index (last (chain_of e' (bs @ [b])))))"
    using heads f by (simp add: st' append_block_def get_chain_head_def chain_of_snoc)
  have b1: "\<And>e'. block_lists st' e' = take 1000 (rev (map block_hash (chain_of e' (bs @ [b]))))"
    using lists f by (simp add: st' append_block_def chain_of_snoc lpush_ltrim_def take_lpush)
  have s1: "\<And>h x. block_store st' h = Some x \<Longrightarrow> x \<in> set (bs @ [b]) \<and> h = block_hash x"
    using store by (auto simp add: st' append_block_def split: if_splits)
  show ?thesis unfolding chain_inv_def using l1 h1 b1 s1 by blast
qed

lemma run_creates_snoc:
  "run_creates H env_node (calls @ [c]) = create_step H env_node (run_creates H env_node calls) c"
  by (simp add: run_creates_def)

lemma create_step_cases:
  assumes "create_step H env_node (st1, bs1) c = (st, bs)"
  shows "(st = st1 \<and> bs = bs1)
    \<or> (\<exists>b clock e sn sg ct. c = (clock, e, sn, sg, ct)
          \<and> create_block H clock env_node st1 e sn sg ct = Inr (b, st) \<and> bs = bs1 @ [b])"
  using assms
  by (auto simp add: create_step_def split: prod.splits sum.splits)

lemma chain_inv_empty: "chain_inv H empty_store []"
  by (simp add: chain_inv_def empty_store_def get_chain_head_def chain_of_def)

lemma run_chain_inv:
  "run_creates H env_node calls = (st, bs) \<Longrightarrow> GENESIS_HASH \<notin> set (map block_hash bs)
   \<Longrightarrow> chain_inv H st bs"
proof (induction calls arbitrary: st bs rule: rev_induct)
  case Nil
  then show ?case by (simp add: run_creates_def chain_inv_empty)
next
  case (snoc c calls)
  obtain st1 bs1 where r: "run_creates H env_node calls = (st1, bs1)"
    by (cases "run_creates H env_node calls")
  with snoc.prems(1) have s: "create_step H env_node (st1, bs1) c = (st, bs)"
    by (simp add: run_creates_snoc)
  from create_step_cases [OF s] show ?case
  proof
    assume "st = st1 \<and> bs = bs1"
    with snoc.IH [OF r] snoc.prems(2) show ?thesis by simp
  next
    assume "\<exists>b clock e sn sg ct. c = (clock, e, sn, sg, ct)
          \<and> create_block H clock env_node st1 e sn sg ct = Inr (b, st) \<and> bs = bs1 @ [b]"
    then obtain b clock e sn sg ct where
      cb: "create_block H clock env_node st1 e sn sg ct = Inr (b, st)" and bs: "bs = bs1 @ [b]"
      by blast
    from snoc.prems(2) bs have ng: "GENESIS_HASH \<notin> set (map block_hash bs1)" by simp
    from chain_inv_step [OF snoc.IH [OF r ng] ng cb] bs show ?thesis by simp
  qed
qed

lemma chain_linked_hashes:
  "chain_linked H p i xs \<Longrightarrow> x \<in> set xs \<Longrightarrow> block_hash x = compute_hash H x"
  by (induction xs arbitrary: p i) auto

lemma run_store_complete:
  "run_creates H env_node calls = (st, bs) \<Longrightarrow> distinct (map block_hash bs)
   \<Longrightarrow> b \<in> set bs \<Longrightarrow> block_store st (block_hash b) = Some b"
proof (induction calls arbitrary: st bs rule: rev_induct)
  case Nil
  then show ?case by (simp add: run_creates_def)
next
  case (snoc c calls)
  obtain st1 bs1 where r: "run_creates H env_node calls = (st1, bs1)"
    by (cases "run_creates H env_node calls")
  with snoc.prems(1) have s: "create_step H env_node (st1, bs1) c = (st, bs)"
    by (simp add: run_creates_snoc)
  from create_step_cases [OF s] show ?case
  proof
    assume "st = st1 \<and> bs = bs1"
    with snoc.IH [OF r] snoc.prems show ?thesis by simp
  next
    assume "\<exists>b clock e sn sg ct. c = (clock, e, sn, sg, ct)
          \<and> create_block H clock env_node st1 e sn sg ct = Inr (b, st) \<and> bs = bs1 @ [b]"
    then obtain b' clock e sn sg ct where
      cb: "create_block H clock env_node st1 e sn sg ct = Inr (b', st)" and bs: "bs = bs1 @ [b']"
      by blast
    from create_block_Inr [OF cb] have st: "st = snd (append_block st1 b')" by simp
    from snoc.prems(2) bs have d: "distinct (map block_hash bs1)"
      and fresh: "block_hash b' \<notin> set (map block_hash bs1)" by simp_all
    show ?thesis
    proof (cases "b = b'")
      case True
      then show ?thesis by (simp add: st append_block_def)
    next
      case False
      with snoc.prems(3) bs have m: "b \<in> set bs1" by simp
      with fresh have "block_hash b \<noteq> block_hash b'" by (metis image_eqI set_map)
      with snoc.IH [OF r d m] show ?thesis by (simp add: st append_block_def)
    qed
  qed
qed

lemma run_observed:
  "run_creates H env_node calls = (st, bs) \<Longrightarrow> clocks_set calls
   \<Longrightarrow> b \<in> set bs \<Longrightarrow> observed_at b \<noteq> []"
proof (induction calls arbitrary: st bs rule: rev_induct)
  case Nil
  then show ?case by (simp add: run_creates_def)
next
  case (snoc c calls)
  obtain st1 bs1 where r: "run_creates H env_node calls = (st1, bs1)"
    by (cases "run_creates H env_node calls")
  with snoc.prems(1) have s: "create_step H env_node (st1, bs1) c = (st, bs)"
    by (simp add: run_creates_snoc)
  from snoc.prems(2) have cs: "clocks_set calls" and cc: "fst (fst c) \<noteq> []"
    by (simp_all add: clocks_set_def)
  from create_step_cases [OF s] show ?case
  proof
    assume "st = st1 \<and> bs = bs1"
    with snoc.IH [OF r cs] snoc.prems show ?thesis by simp
  next
    assume "\<exists>b clock e sn sg ct. c = (clock, e, sn, sg, ct)
          \<and> create_block H clock env_node st1 e sn sg ct = Inr (b, st) \<and> bs = bs1 @ [b]"
    then obtain b' clock e sn sg ct where c: "c = (clock, e, sn, sg, ct)" and
      cb: "create_block H clock env_node st1 e sn sg ct = Inr (b', st)" and bs: "bs = bs1 @ [b']"
      by blast
    from create_block_Inr [OF cb] c cc have "observed_at b' \<noteq> []" by simp
    with snoc.IH [OF r cs] snoc.prems(3) bs show ?thesis by auto
  qed
qed

text \<open>The window of verify_chain is a prefix of the entity's list.\<close>

lemma lrange_to_take: "\<exists>m. lrange_to hs stop = take m hs"
  by (auto simp add: lrange_to_def)

lemma map_filter_stored:
  "(\<And>y. y \<in> set ys \<Longrightarrow> f (g y) = Some y) \<Longrightarrow> List.map_filter f (map g ys) = ys"
  by (induction ys) (simp_all add: List.map_filter_simps)

lemma chain_linked_sorted:
  "chain_linked H p i xs \<Longrightarrow>
     sorted (map block_index xs) \<and> distinct (map block_index xs)
     \<and> (\<forall>x \<in> set xs. i \<le> block_index x)"
proof (induction xs arbitrary: p i)
  case Nil
  then show ?case by simp
next
  case (Cons x xs)
  from Cons.prems have l: "chain_linked H (block_hash x) (i + 1) xs" and ix: "block_index x = i"
    unfolding chain_linked.simps by blast+
  from Cons.IH [OF l] ix show ?case by fastforce
qed

lemma chain_linked_drop:
  "chain_linked H p i xs \<Longrightarrow> \<exists>p'. chain_linked H p' (i + int k) (drop k xs)"
proof (induction xs arbitrary: p i k)
  case Nil
  then show ?case by simp
next
  case (Cons x xs)
  show ?case
  proof (cases k)
    case 0
    with Cons.prems show ?thesis by auto
  next
    case (Suc j)
    from Cons.prems have l: "chain_linked H (block_hash x) (i + 1) xs"
      unfolding chain_linked.simps by blast
    from Cons.IH [OF l, of j] Suc show ?thesis by (simp add: add.assoc)
  qed
qed

lemma check_blocks_linked:
  "chain_linked H p i xs \<Longrightarrow> (\<And>x. x \<in> set xs \<Longrightarrow> observed_at x \<noteq> [])
   \<Longrightarrow> (case prev of None \<Rightarrow> True | Some q \<Rightarrow> block_hash q = p)
   \<Longrightarrow> check_blocks H clock env_node prev xs = []"
proof (induction xs arbitrary: p i prev)
  case Nil
  then show ?case by simp
next
  case (Cons x xs)
  from Cons.prems(1) have l: "chain_linked H (block_hash x) (i + 1) xs"
    and px: "prev_hash x = p" and hx: "block_hash x = compute_hash H x"
    unfolding chain_linked.simps by blast+
  from Cons.prems(2) have ox: "observed_at x \<noteq> []" by simp
  have rec: "compute_hash H (post_init H clock env_node x) = block_hash x"
    using ox hx by (simp add: compute_hash_def hash_fields_post_init) (simp add: hash_fields_def)
  have link: "(case prev of None \<Rightarrow> [] | Some q \<Rightarrow>
                 if block_hash q \<noteq> prev_hash x
                 then [chain_break (block_index x) (block_hash q) (prev_hash x)] else []) = []"
    using Cons.prems(3) px by (cases prev) auto
  have rest: "check_blocks H clock env_node (Some x) xs = []"
    using Cons.IH [OF l, of "Some x"] Cons.prems(2) by simp
  show ?case using rec link rest by (simp add: Let_def)
qed

lemma sort_key_rev_sorted:
  "sorted (map f xs) \<Longrightarrow> distinct (map f xs) \<Longrightarrow> sort_key f (rev xs) = xs"
  by (rule sort_key_inj_key_eq) (simp_all add: distinct_map)

lemma history_of_run:
  assumes run: "run_creates H env_node calls = (st, bs)" and cf: "collision_free bs"
  shows "\<exists>j. get_entity_history st e limit = rev (drop j (chain_of e bs))"
proof -
  let ?c = "chain_of e bs"
  from cf have ng: "GENESIS_HASH \<notin> set (map block_hash bs)" and d: "distinct (map block_hash bs)"
    by (simp_all add: collision_free_def)
  from run_chain_inv [OF run ng]
  have lists: "block_lists st e = take 1000 (rev (map block_hash ?c))"
    by (simp add: chain_inv_def)
  obtain m where m: "lrange_to (block_lists st e) (limit - 1) = take m (block_lists st e)"
    using lrange_to_take by blast
  have "take m (block_lists st e) = map block_hash (take (min m 1000) (rev ?c))"
    by (simp add: lists rev_map take_map)
  also have "take (min m 1000) (rev ?c) = rev (drop (length ?c - min m 1000) ?c)"
    by (simp add: take_rev)
  finally have w: "lrange_to (block_lists st e) (limit - 1)
      = map block_hash (rev (drop (length ?c - min m 1000) ?c))"
    using m by simp
  have "\<And>y. y \<in> set (rev (drop (length ?c - min m 1000) ?c))
      \<Longrightarrow> block_store st (block_hash y) = Some y"
  proof -
    fix y assume "y \<in> set (rev (drop (length ?c - min m 1000) ?c))"
    then have "y \<in> set ?c" by (auto dest: in_set_dropD)
    then have "y \<in> set bs" by (simp add: chain_of_def)
    from run_store_complete [OF run d this] show "block_store st (block_hash y) = Some y" .
  qed
  from map_filter_stored [of "rev (drop (length ?c - min m 1000) ?c)" "block_store st" block_hash,
      OF this] w
  show ?thesis by (auto simp add: get_entity_history_def)
qed

lemma verify_chain_fresh:
  assumes run: "run_creates H env_node calls = (st, bs)" and cf: "collision_free bs"
    and cs: "clocks_set calls"
  shows "breaks (verify_chain H clock env_node' st e limit) = []
     \<and> verified (verify_chain H clock env_node' st e limit)"
proof -
  let ?c = "chain_of e bs"
  from cf have ng: "GENESIS_HASH \<notin> set (map block_hash bs)"
    by (simp add: collision_free_def)
  from run_chain_inv [OF run ng] have linked: "chain_linked H GENESIS_HASH 0 ?c"
    by (simp add: chain_inv_def)
  obtain j where h: "get_entity_history st e limit = rev (drop j ?c)"
    using history_of_run [OF run cf] by blast
  obtain p where lp: "chain_linked H p (0 + int j) (drop j ?c)"
    using chain_linked_drop [OF linked] by blast
  from chain_linked_sorted [OF lp]
  have so: "sort_key block_index (rev (drop j ?c)) = drop j ?c"
    by (simp add: sort_key_rev_sorted)
  have ob: "\<And>x. x \<in> set (drop j ?c) \<Longrightarrow> observed_at x \<noteq> []"
  proof -
    fix x assume "x \<in> set (drop j ?c)"
    then have "x \<in> set ?c" by (rule in_set_dropD)
    then have "x \<in> set bs" by (simp add: chain_of_def)
    from run_observed [OF run cs this] show "observed_at x \<noteq> []" .
  qed
  have "check_blocks H clock env_node' None (drop j ?c) = []"
    using check_blocks_linked [OF lp ob, of None] by simp
  then show ?thesis by (simp add: verify_chain_def h so Let_def)
qed

lemma check_blocks_reports_mismatch:
  "b \<in> set xs \<Longrightarrow> compute_hash H (post_init H clock env_node b) \<noteq> block_hash b
   \<Longrightarrow> hash_mismatch (block_index b) (compute_hash H (post_init H clock env_node b)) (block_hash b)
        \<in> set (check_blocks H clock env_node prev xs)"
  by (induction xs arbitrary: prev) (auto simp add: Let_def)

lemma map_filter_member:
  "h \<in> set hs \<Longrightarrow> f h = Some b \<Longrightarrow> b \<in> set (List.map_filter f hs)"
  by (force simp add: List.map_filter_def)

lemma verify_chain_reports_bad_block:
  assumes w: "h \<in> set (lrange_to (block_lists st e) (limit - 1))"
    and s: "block_store st h = Some b"
    and bad: "compute_hash H (post_init H clock env_node b) \<noteq> block_hash b"
  shows "hash_mismatch (block_index b) (compute_hash H (post_init H clock env_node b)) (block_hash b)
           \<in> set (breaks (verify_chain H clock env_node st e limit))
     \<and> \<not> verified (verify_chain H clock env_node st e limit)"
proof -
  from map_filter_member [of h _ "block_store st" b, OF w s] have m: "b \<in> set (get_entity_history st e limit)"
    by (simp add: get_entity_history_def)
  then have ne: "get_entity_history st e limit \<noteq> []" by auto
  from m have "b \<in> set (sort_key block_index (get_entity_history st e limit))" by simp
  from check_blocks_reports_mismatch [OF this bad, of None]
  show ?thesis using ne by (auto simp add: verify_chain_def Let_def)
qed

lemma verify_chain_outside_window:
  assumes "h \<notin> set (lrange_to (block_lists st e) (limit - 1))"
  shows "verify_chain H clock env_node (st\<lparr> block_store := (block_store st)(h \<mapsto> b') \<rparr>) e limit
         = verify_chain H clock env_node st e limit"
proof -
  have "\<And>hs. h \<notin> set hs \<Longrightarrow>
      List.map_filter ((block_store st)(h \<mapsto> b')) hs = List.map_filter (block_store st) hs"
  proof -
    fix hs show "h \<notin> set hs \<Longrightarrow>
      List.map_filter ((block_store st)(h \<mapsto> b')) hs = List.map_filter (block_store st) hs"
      by (induction hs) (auto simp add: List.map_filter_simps split: option.splits)
  qed
  from this [OF assms] show ?thesis
    by (simp add: verify_chain_def get_entity_history_def)
qed

lemma inj_digest_separates:
  "inj H \<Longrightarrow> sg' \<noteq> signals b \<Longrightarrow> compute_hash H (b\<lparr> signals := sg' \<rparr>) \<noteq> compute_hash H b"
  by (auto simp add: compute_hash_def hash_fields_def dest: injD)

lemma toy_hashes:
  "first_hash \<noteq> GENESIS_HASH" "second_hash \<noteq> GENESIS_HASH" "first_hash \<noteq> second_hash"
  "second_hash \<noteq> first_hash"
  by (simp_all add: first_hash_def second_hash_def toy_digest_def GENESIS_HASH_def)

lemma two_calls_blocks:
  "snd (run_creates toy_digest ''node-0'' two_calls) = [first_block, second_block]"
  using toy_hashes
  by (simp add: run_creates_def two_calls_def create_step_def create_block_def
      get_chain_head_def get_last_signals_def Let_def empty_store_def append_block_def
      post_init_Block_fields lpush_ltrim_def first_block_def second_block_def
      first_hash_def second_hash_def)

lemma example_store_lists:
  "block_lists example_store ''example.com'' = [second_hash, first_hash]"
  using toy_hashes
  by (simp add: example_store_def run_creates_def two_calls_def create_step_def create_block_def
      get_chain_head_def get_last_signals_def Let_def empty_store_def append_block_def
      post_init_Block_fields lpush_ltrim_def first_block_def second_block_def
      first_hash_def second_hash_def)

lemma example_store_blocks:
  "block_store example_store first_hash = Some first_block"
  "block_store example_store second_hash = Some second_block"
  using toy_hashes
  by (simp_all add: example_store_def run_creates_def two_calls_def create_step_def create_block_def
      get_chain_head_def get_last_signals_def Let_def empty_store_def append_block_def
      post_init_Block_fields lpush_ltrim_def first_block_def second_block_def
      first_hash_def second_hash_def)

lemma same_hashed_fields:
  assumes "same_hashed x y"
  shows "block_index x = block_index y" "prev_hash x = prev_hash y" "block_hash x = block_hash y"
    "compute_hash H (post_init H clock env_node x) = compute_hash H (post_init H clock env_node y)"
  using assms
  by (simp_all add: same_hashed_def compute_hash_def hash_fields_post_init)
     (simp_all add: hash_fields_def)

lemma check_blocks_same:
  "list_all2 same_hashed xs ys \<Longrightarrow> rel_option same_hashed p q
   \<Longrightarrow> check_blocks H clock env_node p xs = check_blocks H clock env_node q ys"
proof (induction xs ys arbitrary: p q rule: list_all2_induct)
  case Nil
  then show ?case by simp
next
  case (Cons x xs y ys)
  have r: "check_blocks H clock env_node (Some x) xs = check_blocks H clock env_node (Some y) ys"
    using Cons.IH [of "Some x" "Some y"] Cons.hyps(1) by simp
  have l: "(case p of None \<Rightarrow> [] | Some a \<Rightarrow>
              if block_hash a \<noteq> prev_hash x
              then [chain_break (block_index x) (block_hash a) (prev_hash x)] else [])
         = (case q of None \<Rightarrow> [] | Some a \<Rightarrow>
              if block_hash a \<noteq> prev_hash y
              then [chain_break (block_index y) (block_hash a) (prev_hash y)] else [])"
    using Cons.prems same_hashed_fields(1,2) [OF Cons.hyps(1)]
    by (cases p; cases q) (auto simp add: same_hashed_def)
  show ?case
    using r l same_hashed_fields(1,2,3) [OF Cons.hyps(1)]
      same_hashed_fields(4) [OF Cons.hyps(1), of H clock env_node]
    by (simp add: Let_def)
qed

lemma insort_key_same:
  "list_all2 R xs ys \<Longrightarrow> R x y \<Longrightarrow> (\<And>a b. R a b \<Longrightarrow> f a = f b)
   \<Longrightarrow> list_all2 R (insort_key f x xs) (insort_key f y ys)"
proof (induction xs ys rule: list_all2_induct)
  case Nil
  then show ?case by simp
next
  case (Cons a xs b ys)
  from Cons.prems(2) [OF Cons.prems(1)] Cons.prems(2) [OF Cons.hyps(1)]
  have "f x = f y" "f a = f b" by simp_all
  with Cons show ?case by simp
qed

lemma sort_key_same:
  "list_all2 R xs ys \<Longrightarrow> (\<And>a b. R a b \<Longrightarrow> f a = f b)
   \<Longrightarrow> list_all2 R (sort_key f xs) (sort_key f ys)"
proof (induction xs ys rule: list_all2_induct)
  case Nil
  then show ?case by simp
next
  case (Cons a xs b ys)
  from insort_key_same [OF Cons.IH [OF Cons.prems] Cons.hyps(1) Cons.prems]
  show ?case by simp
qed

lemma map_filter_same:
  "(\<And>h. rel_option R (f h) (g h)) \<Longrightarrow> list_all2 R (List.map_filter f hs) (List.map_filter g hs)"
proof (induction hs)
  case Nil
  then show ?case by (simp add: List.map_filter_simps)
next
  case (Cons h hs)
  from Cons.prems [of h] Cons.IH [OF Cons.prems] show ?case
    by (cases "f h"; cases "g h") (simp_all add: List.map_filter_simps)
qed

lemma list_all2_last:
  "list_all2 R xs ys \<Longrightarrow> xs \<noteq> [] \<Longrightarrow> R (last xs) (last ys)"
  by (induction xs ys rule: list_all2_induct) (auto simp add: list_all2_Nil)

lemma verify_chain_same:
  assumes "\<And>h. rel_option same_hashed (block_store st1 h) (block_store st2 h)"
    and "block_lists st1 e = block_lists st2 e"
  shows "verify_chain H clock env_node st1 e limit = verify_chain H clock env_node st2 e limit"
proof -
  let ?h1 = "get_entity_history st1 e limit" and ?h2 = "get_entity_history st2 e limit"
  have h: "list_all2 same_hashed ?h1 ?h2"
    using map_filter_same [of same_hashed "block_store st1" "block_store st2", OF assms(1)]
      assms(2)
    by (simp add: get_entity_history_def)
  have s: "list_all2 same_hashed (sort_key block_index ?h1) (sort_key block_index ?h2)"
    using sort_key_same [OF h, of block_index] same_hashed_fields(1) by blast
  have c: "check_blocks H clock env_node None (sort_key block_index ?h1)
         = check_blocks H clock env_node None (sort_key block_index ?h2)"
    using check_blocks_same [OF s, of None None] by simp
  have n: "(?h1 = []) = (?h2 = [])" using h by (auto simp add: list_all2_Nil list_all2_Nil2)
  have len: "length (sort_key block_index ?h1) = length (sort_key block_index ?h2)"
    using s by (rule list_all2_lengthD)
  have la: "?h1 \<noteq> [] \<Longrightarrow> block_hash (last (sort_key block_index ?h1))
      = block_hash (last (sort_key block_index ?h2))"
  proof -
    assume "?h1 \<noteq> []"
    then have "sort_key block_index ?h1 \<noteq> []" by (metis length_0_conv length_sort)
    from list_all2_last [OF s this] show ?thesis by (simp add: same_hashed_def)
  qed
  show ?thesis
  proof (cases "?h1 = []")
    case True
    with n show ?thesis by (simp add: verify_chain_def)
  next
    case False
    with n la c len show ?thesis by (simp add: verify_chain_def Let_def)
  qed
qed

lemma same_hashed_refl: "same_hashed b b"
  by (simp add: same_hashed_def)

lemma rel_option_same_refl: "rel_option same_hashed x x"
  by (cases x) (simp_all add: same_hashed_refl)

lemma tampered_store_facts:
  "block_lists tampered_store ''example.com'' = [second_hash, first_hash]"
  "block_store tampered_store first_hash = Some tampered_block"
  "block_store tampered_store second_hash = Some second_block"
  using toy_hashes
  by (simp_all add: tampered_store_def example_store_lists example_store_blocks)

lemma example_run:
  "run_creates toy_digest ''node-0'' two_calls = (example_store, [first_block, second_block])"
  by (simp add: example_store_def two_calls_blocks [symmetric])

lemma example_chain:
  "chain_of ''example.com'' [first_block, second_block] = [first_block, second_block]"
  by (simp add: chain_of_def first_block_def second_block_def)

lemma example_collision_free: "collision_free [first_block, second_block]"
  using toy_hashes by (simp add: collision_free_def first_block_def second_block_def)

lemma example_clocks: "clocks_set two_calls"
  by (simp add: clocks_set_def two_calls_def)

lemma example_hashes_valid:
  "compute_hash toy_digest first_block = first_hash"
  "compute_hash toy_digest second_block = second_hash"
  by (simp_all add: compute_hash_def hash_fields_def first_block_def second_block_def
      first_hash_def second_hash_def)

lemma compute_hash_post_init:
  "observed_at b \<noteq> [] \<Longrightarrow> compute_hash H (post_init H clock env_node b) = compute_hash H b"
  by (simp add: compute_hash_def hash_fields_post_init) (simp add: hash_fields_def)

lemma example_observed:
  "observed_at first_block \<noteq> []" "observed_at second_block \<noteq> []"
  "observed_at tampered_block \<noteq> []"
  by (simp_all add: first_block_def second_block_def tampered_block_def)

lemma tampered_hash_differs:
  "compute_hash toy_digest tampered_block \<noteq> first_hash"
  by (simp add: compute_hash_def hash_fields_def tampered_block_def first_block_def
      first_hash_def toy_digest_def eval_nat_numeral)

lemma example_block_fields:
  "entity_id first_block = ''example.com''" "block_hash first_block = first_hash"
  "block_index first_block = 0" "prev_hash first_block = GENESIS_HASH"
  "block_hash second_block = second_hash" "block_index second_block = 1"
  "prev_hash second_block = first_hash"
  "block_hash tampered_block = first_hash" "block_index tampered_block = 0"
  "prev_hash tampered_block = GENESIS_HASH"
  "signals tampered_block = [''k'' \<mapsto> PInt 7]" "signals first_block = [''k'' \<mapsto> PInt 1]"
  by (simp_all add: first_block_def second_block_def tampered_block_def)

text \<open>
  C6.  Run any sequence of \<open>create_block\<close> calls (each ending in \<open>append_block\<close>) by a
  single writer on an empty store, and suppose no digest of the run is the genesis
  constant.  Then for every entity the blocks appended for it, oldest first, have the
  indexes 0, 1, 2, ... (so they increase strictly), each names the hash of the block before
  it (the first names the genesis constant), and each stored hash is the recomputation of
  the block's own fields; the entity's list in the store holds these hashes newest first,
  and every stored block is filed under its own, valid hash.
\<close>

theorem chain_linkage_invariant:
  assumes "run_creates H env_node calls = (st, bs)"
    and "GENESIS_HASH \<notin> set (map block_hash bs)"
  shows "(\<forall>k < length (chain_of e bs).
            block_index (chain_of e bs ! k) = int k
          \<and> block_hash (chain_of e bs ! k) = compute_hash H (chain_of e bs ! k)
          \<and> prev_hash (chain_of e bs ! k)
              = (if k = 0 then GENESIS_HASH else block_hash (chain_of e bs ! (k - 1))))
    \<and> (\<forall>j k. j < k \<and> k < length (chain_of e bs)
          \<longrightarrow> block_index (chain_of e bs ! j) < block_index (chain_of e bs ! k))
    \<and> block_lists st e = take 1000 (rev (map block_hash (chain_of e bs)))
    \<and> (\<forall>h b. block_store st h = Some b \<longrightarrow> h = block_hash b \<and> block_hash b = compute_hash H b)"
proof -
  from run_chain_inv [OF assms] have inv: "chain_inv H st bs" .
  then have linked: "\<And>e'. chain_linked H GENESIS_HASH 0 (chain_of e' bs)"
    and lists: "block_lists st e = take 1000 (rev (map block_hash (chain_of e bs)))"
    and store: "\<And>h x. block_store st h = Some x \<Longrightarrow> x \<in> set bs \<and> h = block_hash x"
    by (simp_all add: chain_inv_def)
  have nth: "\<And>k. k < length (chain_of e bs) \<Longrightarrow>
            block_index (chain_of e bs ! k) = int k
          \<and> block_hash (chain_of e bs ! k) = compute_hash H (chain_of e bs ! k)
          \<and> prev_hash (chain_of e bs ! k)
              = (if k = 0 then GENESIS_HASH else block_hash (chain_of e bs ! (k - 1)))"
    using chain_linked_nth [OF linked] by simp
  have incr: "\<And>j k. j < k \<Longrightarrow> k < length (chain_of e bs)
      \<Longrightarrow> block_index (chain_of e bs ! j) < block_index (chain_of e bs ! k)"
  proof -
    fix j k assume "j < k" and k: "k < length (chain_of e bs)"
    then have j: "j < length (chain_of e bs)" by simp
    from nth [OF j] nth [OF k] \<open>j < k\<close> show
      "block_index (chain_of e bs ! j) < block_index (chain_of e bs ! k)" by simp
  qed
  have valid: "\<And>h x. block_store st h = Some x \<Longrightarrow> h = block_hash x \<and> block_hash x = compute_hash H x"
  proof -
    fix h x assume a: "block_store st h = Some x"
    from store [OF a] have "x \<in> set (chain_of (entity_id x) bs)" by (simp add: chain_of_def)
    from chain_linked_hashes [OF linked this] store [OF a]
    show "h = block_hash x \<and> block_hash x = compute_hash H x" by simp
  qed
  from nth incr lists valid show ?thesis by blast
qed

theorem chain_linkage_invariant_witness:
  "run_creates toy_digest ''node-0'' two_calls = (example_store, [first_block, second_block])
   \<and> GENESIS_HASH \<notin> set (map block_hash [first_block, second_block])
   \<and> chain_of ''example.com'' [first_block, second_block] = [first_block, second_block]
   \<and> block_index first_block = 0 \<and> block_index second_block = 1
   \<and> prev_hash first_block = GENESIS_HASH
   \<and> prev_hash second_block = block_hash first_block
   \<and> block_hash second_block = compute_hash toy_digest second_block
   \<and> block_index first_block < block_index second_block
   \<and> block_lists example_store ''example.com'' = [block_hash second_block, block_hash first_block]"
proof -
  have ng: "GENESIS_HASH \<notin> set (map block_hash [first_block, second_block])"
    using example_collision_free by (simp add: collision_free_def)
  note t = chain_linkage_invariant [OF example_run ng, of "''example.com''"]
  from t have n: "\<forall>k<2. block_index ([first_block, second_block] ! k) = int k
          \<and> block_hash ([first_block, second_block] ! k)
              = compute_hash toy_digest ([first_block, second_block] ! k)
          \<and> prev_hash ([first_block, second_block] ! k)
              = (if k = 0 then GENESIS_HASH else block_hash ([first_block, second_block] ! (k - 1)))"
    by (simp add: example_chain)
  from n have n0: "block_index first_block = 0 \<and> prev_hash first_block = GENESIS_HASH"
    by (metis (no_types, lifting) nth_Cons_0 of_nat_0 pos2)
  from n have "block_index ([first_block, second_block] ! 1) = int 1
          \<and> block_hash ([first_block, second_block] ! 1)
              = compute_hash toy_digest ([first_block, second_block] ! 1)
          \<and> prev_hash ([first_block, second_block] ! 1)
              = (if (1::nat) = 0 then GENESIS_HASH
                 else block_hash ([first_block, second_block] ! (1 - 1)))"
    by (metis one_less_numeral_iff semiring_norm(76))
  then have n1: "block_index second_block = 1
      \<and> block_hash second_block = compute_hash toy_digest second_block
      \<and> prev_hash second_block = block_hash first_block"
    by simp
  from t have l: "block_lists example_store ''example.com''
      = [block_hash second_block, block_hash first_block]"
    by (simp add: example_chain)
  from example_run ng example_chain n0 n1 l show ?thesis by simp
qed

text \<open>
  The window of \<open>verify_chain\<close> on a small scale: in the two-block chain of the example the
  payload of the first block is replaced and its hash left alone.  \<open>verify_chain\<close> with
  \<open>limit = 1\<close> reads the newest block only and reports a verified chain; with the default
  limit it reports the mismatch.
\<close>

lemma tampering_undetected_limit_one:
  "block_store tampered_store first_hash = Some tampered_block
   \<and> signals tampered_block ''k'' = Some (PInt 7) \<and> signals first_block ''k'' = Some (PInt 1)
   \<and> block_hash tampered_block = block_hash first_block
   \<and> compute_hash toy_digest tampered_block \<noteq> block_hash tampered_block
   \<and> verified (verify_chain toy_digest verify_clock ''node-0'' tampered_store ''example.com'' 1)
   \<and> breaks (verify_chain toy_digest verify_clock ''node-0'' tampered_store ''example.com'' 1) = []
   \<and> blocks_checked
        (verify_chain toy_digest verify_clock ''node-0'' tampered_store ''example.com'' 1) = 1
   \<and> breaks (verify_chain toy_digest verify_clock ''node-0'' tampered_store ''example.com''
        default_limit)
       = [hash_mismatch 0 (compute_hash toy_digest tampered_block) first_hash]"
  using toy_hashes tampered_hash_differs
  by (simp add: verify_chain_def get_entity_history_def tampered_store_facts lrange_to_def
      List.map_filter_simps Let_def compute_hash_post_init example_observed
      example_hashes_valid example_block_fields default_limit_def)

text \<open>Facts about the stand-in digest and about the run of 101 equal calls.\<close>

lemma replicate_sep:
  "replicate m a @ b # xs = replicate n a @ b # ys \<Longrightarrow> a \<noteq> b \<Longrightarrow> m = n"
proof (induction m arbitrary: n)
  case 0
  then show ?case by (cases n) auto
next
  case (Suc m)
  then show ?case by (cases n) auto
qed

lemma toy_digest_not_genesis: "toy_digest c \<noteq> GENESIS_HASH"
proof -
  have "hd (toy_digest c) = CHR ''#''"
    by (cases c) (simp add: toy_digest_def split: prod.splits)
  moreover have "hd GENESIS_HASH = CHR ''0''"
    by (simp add: GENESIS_HASH_def eval_nat_numeral)
  ultimately show ?thesis by auto
qed

lemma toy_digest_index:
  assumes "toy_digest (e, sn, i, t, sg, p) = toy_digest (e, sn, j, t', sg', p')"
    and "0 \<le> i" and "0 \<le> j"
  shows "i = j"
proof -
  from assms(1) have "replicate (nat i) CHR ''i'' @ CHR ''/'' # (t @ ''/''
        @ (case sg ''k'' of Some (PInt v) \<Rightarrow> replicate (nat v) CHR ''v'' | _ \<Rightarrow> []) @ ''/'' @ p)
      = replicate (nat j) CHR ''i'' @ CHR ''/'' # (t' @ ''/''
        @ (case sg' ''k'' of Some (PInt v) \<Rightarrow> replicate (nat v) CHR ''v'' | _ \<Rightarrow> []) @ ''/'' @ p')"
    by (simp add: toy_digest_def)
  from replicate_sep [OF this] have "nat i = nat j" by simp
  with assms(2,3) show ?thesis by simp
qed

text \<open>Every appended block carries the hash of its own fields.\<close>

lemma run_hashes_valid:
  "run_creates H env_node calls = (st, bs) \<Longrightarrow> b \<in> set bs \<Longrightarrow> block_hash b = compute_hash H b"
proof (induction calls arbitrary: st bs rule: rev_induct)
  case Nil
  then show ?case by (simp add: run_creates_def)
next
  case (snoc c calls)
  obtain st1 bs1 where r: "run_creates H env_node calls = (st1, bs1)"
    by (cases "run_creates H env_node calls")
  with snoc.prems(1) have s: "create_step H env_node (st1, bs1) c = (st, bs)"
    by (simp add: run_creates_snoc)
  from create_step_cases [OF s] show ?case
  proof
    assume "st = st1 \<and> bs = bs1"
    with snoc.IH [OF r] snoc.prems show ?thesis by simp
  next
    assume "\<exists>b clock e sn sg ct. c = (clock, e, sn, sg, ct)
          \<and> create_block H clock env_node st1 e sn sg ct = Inr (b, st) \<and> bs = bs1 @ [b]"
    then obtain b' clock e sn sg ct where
      cb: "create_block H clock env_node st1 e sn sg ct = Inr (b', st)" and bs: "bs = bs1 @ [b']"
      by blast
    from create_block_Inr [OF cb] have "block_hash b' = compute_hash H b'" by simp
    with snoc.IH [OF r] snoc.prems(2) bs show ?thesis by auto
  qed
qed

lemma toy_run_no_genesis:
  assumes "run_creates toy_digest env_node calls = (st, bs)"
  shows "GENESIS_HASH \<notin> set (map block_hash bs)"
proof
  assume "GENESIS_HASH \<in> set (map block_hash bs)"
  then obtain b where b: "b \<in> set bs" and g: "block_hash b = GENESIS_HASH" by auto
  from run_hashes_valid [OF assms b] g toy_digest_not_genesis show False
    by (metis compute_hash_def)
qed

text \<open>A call whose payload does not change the sensor's last payload never raises.\<close>

lemma same_call_run:
  assumes nd: "\<not> isl (compute_delta sg sg)"
  shows "run_creates H env_node (replicate n (clock, e, sn, sg, ct)) = (st, bs) \<Longrightarrow>
     length bs = n \<and> (\<forall>b \<in> set bs. entity_id b = e \<and> sensor b = sn)
     \<and> (latest st (e, sn) = None \<or> latest st (e, sn) = Some sg)"
proof (induction n arbitrary: st bs)
  case 0
  then show ?case by (auto simp add: run_creates_def empty_store_def)
next
  case (Suc n)
  obtain st1 bs1 where r: "run_creates H env_node (replicate n (clock, e, sn, sg, ct)) = (st1, bs1)"
    by (cases "run_creates H env_node (replicate n (clock, e, sn, sg, ct))")
  have "replicate (Suc n) (clock, e, sn, sg, ct)
      = replicate n (clock, e, sn, sg, ct) @ [(clock, e, sn, sg, ct)]"
    by (simp add: replicate_append_same)
  with Suc.prems r have s: "create_step H env_node (st1, bs1) (clock, e, sn, sg, ct) = (st, bs)"
    by (simp add: run_creates_snoc)
  note ih = Suc.IH [OF r]
  from nd obtain d0 where d0: "compute_delta sg sg = Inr d0" by (cases "compute_delta sg sg") auto
  have "\<exists>x. create_block H clock env_node st1 e sn sg ct = Inr x"
  proof (cases "latest st1 (e, sn)")
    case None
    then show ?thesis
      by (simp add: create_block_def Let_def split_beta get_last_signals_def)
  next
    case (Some old)
    with ih have "old = sg" by (metis option.inject option.distinct(1))
    with Some d0 show ?thesis
      by (simp add: create_block_def Let_def split_beta get_last_signals_def)
  qed
  then obtain b' st' where cb': "create_block H clock env_node st1 e sn sg ct = Inr (b', st')"
    by (metis surj_pair)
  from s cb' have eq: "st = st'" "bs = bs1 @ [b']"
    by (simp_all add: create_step_def)
  note f = create_block_Inr [OF cb']
  from f have l: "latest st' (e, sn) = Some sg"
    by (simp add: append_block_def)
  from ih f l show ?case unfolding eq by simp
qed

lemma repeated_call_no_delta:
  "\<not> isl (compute_delta [''k'' \<mapsto> PInt 1] [''k'' \<mapsto> PInt 1])"
  by (simp add: compute_delta_def key_changed_def dict_get_def py_eq_def)


lemma foldl_blocks_prefix:
  "\<exists>ys. snd (foldl (create_step H env_node) acc calls) = snd acc @ ys"
proof (induction calls arbitrary: acc)
  case Nil
  then show ?case by simp
next
  case (Cons c calls)
  have "\<exists>zs. snd (create_step H env_node acc c) = snd acc @ zs"
    by (auto simp add: create_step_def split: sum.splits prod.splits)
  then obtain zs where z: "snd (create_step H env_node acc c) = snd acc @ zs" by blast
  from Cons.IH [of "create_step H env_node acc c"] z show ?case by auto
qed

lemma history_window:
  assumes run: "run_creates H env_node calls = (st, bs)" and cf: "collision_free bs"
  shows "map block_hash (get_entity_history st e limit)
         = lrange_to (block_lists st e) (limit - 1)"
proof -
  let ?c = "chain_of e bs"
  from cf have ng: "GENESIS_HASH \<notin> set (map block_hash bs)" and d: "distinct (map block_hash bs)"
    by (simp_all add: collision_free_def)
  from run_chain_inv [OF run ng]
  have lists: "block_lists st e = take 1000 (rev (map block_hash ?c))"
    by (simp add: chain_inv_def)
  obtain m where m: "lrange_to (block_lists st e) (limit - 1) = take m (block_lists st e)"
    using lrange_to_take by blast
  have "take m (block_lists st e) = map block_hash (take (min m 1000) (rev ?c))"
    by (simp add: lists rev_map take_map)
  with m have w: "lrange_to (block_lists st e) (limit - 1)
      = map block_hash (take (min m 1000) (rev ?c))"
    by (rule trans)
  have "\<And>y. y \<in> set (take (min m 1000) (rev ?c))
      \<Longrightarrow> block_store st (block_hash y) = Some y"
  proof -
    fix y assume "y \<in> set (take (min m 1000) (rev ?c))"
    then have "y \<in> set (rev ?c)" by (rule in_set_takeD)
    then have "y \<in> set bs" by (simp add: chain_of_def)
    from run_store_complete [OF run d this] show "block_store st (block_hash y) = Some y" .
  qed
  from map_filter_stored [of "take (min m 1000) (rev ?c)" "block_store st" block_hash, OF this]
  show ?thesis by (simp add: get_entity_history_def w)
qed

lemma first_step:
  "create_step toy_digest ''node-0'' (empty_store, []) repeated_call
     = (snd (append_block empty_store first_block), [first_block])"
  by (simp add: create_step_def repeated_call_def create_block_def get_chain_head_def
      get_last_signals_def Let_def empty_store_def post_init_Block_fields first_block_def
      first_hash_def append_block_def)

lemma long_run_facts:
  assumes run: "run_creates toy_digest ''node-0'' (replicate 101 repeated_call) = (st, bs)"
  shows "length bs = 101" and "chain_of ''example.com'' bs = bs" and "collision_free bs"
    and "first_block \<in> set bs" and "bs ! 0 = first_block"
proof -
  from run have run': "run_creates toy_digest ''node-0''
      (replicate 101 ((''2024-01-01T00:00:00+00:00'', 1704067200), ''example.com'', ''dns'',
        [''k'' \<mapsto> PInt 1], 12)) = (st, bs)"
    by (simp add: repeated_call_def)
  note sc = same_call_run [OF repeated_call_no_delta run']
  from sc show len: "length bs = 101" by simp
  from sc show ch: "chain_of ''example.com'' bs = bs" by (simp add: chain_of_def)
  note ng = toy_run_no_genesis [OF run]
  from run_chain_inv [OF run ng] ch have linked: "chain_linked toy_digest GENESIS_HASH 0 bs"
    by (simp add: chain_inv_def) (metis ch)
  have "distinct (map block_hash bs)"
    unfolding distinct_conv_nth
  proof (intro allI impI)
    fix i j assume i: "i < length (map block_hash bs)" and j: "j < length (map block_hash bs)"
      and ne: "i \<noteq> j"
    from i j have i': "i < length bs" and j': "j < length bs" by simp_all
    from chain_linked_nth [OF linked i'] chain_linked_nth [OF linked j']
    have ix: "block_index (bs ! i) = int i" "block_index (bs ! j) = int j"
      and hs: "block_hash (bs ! i) = compute_hash toy_digest (bs ! i)"
        "block_hash (bs ! j) = compute_hash toy_digest (bs ! j)"
      by simp_all
    from sc i' j' have en: "entity_id (bs ! i) = ''example.com''" "sensor (bs ! i) = ''dns''"
      "entity_id (bs ! j) = ''example.com''" "sensor (bs ! j) = ''dns''"
      by simp_all
    show "map block_hash bs ! i \<noteq> map block_hash bs ! j"
    proof
      assume "map block_hash bs ! i = map block_hash bs ! j"
      with i' j' hs have "compute_hash toy_digest (bs ! i) = compute_hash toy_digest (bs ! j)"
        by simp
      then have "toy_digest (''example.com'', ''dns'', int i, observed_at (bs ! i),
            signals (bs ! i), prev_hash (bs ! i))
          = toy_digest (''example.com'', ''dns'', int j, observed_at (bs ! j),
            signals (bs ! j), prev_hash (bs ! j))"
        by (simp add: compute_hash_def hash_fields_def en ix)
      from toy_digest_index [OF this] ne show False by simp
    qed
  qed
  with ng show "collision_free bs" by (simp add: collision_free_def)
  have "replicate 101 repeated_call = repeated_call # replicate 100 repeated_call"
    by (simp add: eval_nat_numeral)
  with run have "foldl (create_step toy_digest ''node-0'')
      (create_step toy_digest ''node-0'' (empty_store, []) repeated_call)
      (replicate 100 repeated_call) = (st, bs)"
    by (simp add: run_creates_def)
  with foldl_blocks_prefix [of toy_digest "''node-0''"
      "create_step toy_digest ''node-0'' (empty_store, []) repeated_call"
      "replicate 100 repeated_call"]
  obtain ys where "bs = [first_block] @ ys" by (auto simp add: first_step)
  then show "first_block \<in> set bs" and "bs ! 0 = first_block" by simp_all
qed


lemma blocks_checked_length:
  "blocks_checked (verify_chain H clock env_node st e limit)
     = length (get_entity_history st e limit)"
  by (simp add: verify_chain_def Let_def)

text \<open>
  C7, as stated, fails.  The same observation is recorded 101 times; then the payload of
  the oldest block is replaced and its hash left alone, so that its recomputed hash no
  longer matches.  \<open>verify_chain\<close> with its default limit reads the 100 newest blocks and
  reports a verified chain with no breaks.
\<close>

theorem tampering_outside_window_undetected:
  "block_store long_store first_hash = Some first_block
   \<and> block_store long_tampered_store first_hash = Some tampered_block
   \<and> signals first_block ''k'' = Some (PInt 1) \<and> signals tampered_block ''k'' = Some (PInt 7)
   \<and> block_hash tampered_block = block_hash first_block
   \<and> compute_hash toy_digest tampered_block \<noteq> block_hash tampered_block
   \<and> verified (verify_chain toy_digest verify_clock ''node-0'' long_tampered_store
        ''example.com'' default_limit)
   \<and> breaks (verify_chain toy_digest verify_clock ''node-0'' long_tampered_store
        ''example.com'' default_limit) = []
   \<and> blocks_checked (verify_chain toy_digest verify_clock ''node-0'' long_tampered_store
        ''example.com'' default_limit) = 100"
proof -
  obtain bs where run:
    "run_creates toy_digest ''node-0'' (replicate 101 repeated_call) = (long_store, bs)"
    by (metis long_store_def prod.collapse)
  note f = long_run_facts [OF run]
  from f(3) have d: "distinct (map block_hash bs)"
    and ng: "GENESIS_HASH \<notin> set (map block_hash bs)"
    by (simp_all add: collision_free_def)
  have cs: "clocks_set (replicate 101 repeated_call)"
    by (simp add: clocks_set_def repeated_call_def list_all_iff)
  from run_store_complete [OF run d f(4)]
  have s1: "block_store long_store first_hash = Some first_block"
    by (simp add: example_block_fields)
  have s2: "block_store long_tampered_store first_hash = Some tampered_block"
    by (simp add: long_tampered_store_def)
  let ?hs = "map block_hash bs"
  from run_chain_inv [OF run ng] f(2)
  have lists: "block_lists long_store ''example.com'' = take 1000 (rev ?hs)"
    by (simp add: chain_inv_def rev_map)
  have win: "lrange_to (block_lists long_store ''example.com'') (default_limit - 1)
      = take 100 (rev ?hs)"
    by (simp add: lists lrange_to_def default_limit_def)
  have "drop 100 (rev ?hs) ! 0 = rev ?hs ! 100" using f(1) by simp
  also have "\<dots> = ?hs ! 0" using f(1) by (simp add: rev_nth)
  also have "\<dots> = first_hash" using f(1) f(5) by (simp add: example_block_fields)
  finally have "first_hash = drop 100 (rev ?hs) ! 0" by simp
  moreover have "drop 100 (rev ?hs) ! 0 \<in> set (drop 100 (rev ?hs))"
    using f(1) by (intro nth_mem) simp
  ultimately have "first_hash \<in> set (drop 100 (rev ?hs))" by simp
  moreover from d have "set (take 100 (rev ?hs)) \<inter> set (drop 100 (rev ?hs)) = {}"
    by (intro set_take_disj_set_drop_if_distinct) simp_all
  ultimately have out: "first_hash
      \<notin> set (lrange_to (block_lists long_store ''example.com'') (default_limit - 1))"
    unfolding win by blast
  have same: "verify_chain toy_digest verify_clock ''node-0'' long_tampered_store
        ''example.com'' default_limit
      = verify_chain toy_digest verify_clock ''node-0'' long_store ''example.com'' default_limit"
    unfolding long_tampered_store_def by (rule verify_chain_outside_window [OF out])
  note fresh = verify_chain_fresh [OF run f(3) cs, of verify_clock "''node-0''" "''example.com''"
      default_limit]
  have "length (get_entity_history long_store ''example.com'' default_limit)
      = length (map block_hash (get_entity_history long_store ''example.com'' default_limit))"
    by simp
  also have "\<dots> = length (take 100 (rev ?hs))"
    unfolding history_window [OF run f(3)] win ..
  also have "\<dots> = 100" using f(1) by simp
  finally have n: "blocks_checked (verify_chain toy_digest verify_clock ''node-0'' long_store
        ''example.com'' default_limit) = 100"
    by (simp add: blocks_checked_length)
  from s1 s2 same fresh n tampered_hash_differs show ?thesis
    by (simp add: example_block_fields)
qed

text \<open>
  C7, amended.  After any single-writer run of \<open>create_block\<close> calls on an empty store in
  which no two digests collide, none is the genesis constant and every clock reading is a
  non-empty string, \<open>verify_chain\<close> reports a verified chain with no breaks, for every
  entity and limit.  If then the payload of a block of the run whose hash lies among the
  entries of its entity's list that \<open>verify_chain\<close> reads (the \<open>limit\<close> newest) is
  replaced, the stored hash left alone, and the digest separates the new content from the
  old, \<open>verify_chain\<close> reports a hash mismatch for that block's index.
\<close>

theorem verify_chain_fresh_and_tamper_evident:
  assumes run: "run_creates H env_node calls = (st, bs)"
    and cf: "collision_free bs"
    and cs: "clocks_set calls"
    and b: "b \<in> set bs"
    and w: "block_hash b \<in> set (lrange_to (block_lists st (entity_id b)) (limit - 1))"
    and sep: "compute_hash H (b\<lparr> signals := sg' \<rparr>) \<noteq> compute_hash H b"
  shows "verified (verify_chain H clock env_node' st e limit)
    \<and> breaks (verify_chain H clock env_node' st e limit) = []
    \<and> hash_mismatch (block_index b) (compute_hash H (b\<lparr> signals := sg' \<rparr>)) (block_hash b)
        \<in> set (breaks (verify_chain H clock env_node'
                  (st\<lparr> block_store := (block_store st)(block_hash b \<mapsto> b\<lparr> signals := sg' \<rparr>) \<rparr>)
                  (entity_id b) limit))
    \<and> \<not> verified (verify_chain H clock env_node'
                  (st\<lparr> block_store := (block_store st)(block_hash b \<mapsto> b\<lparr> signals := sg' \<rparr>) \<rparr>)
                  (entity_id b) limit)"
proof -
  let ?b' = "b\<lparr> signals := sg' \<rparr>"
  let ?st' = "st\<lparr> block_store := (block_store st)(block_hash b \<mapsto> ?b') \<rparr>"
  from cf have ng: "GENESIS_HASH \<notin> set (map block_hash bs)"
    by (simp add: collision_free_def)
  from run_chain_inv [OF run ng]
  have linked: "chain_linked H GENESIS_HASH 0 (chain_of (entity_id b) bs)"
    by (simp add: chain_inv_def)
  from b have "b \<in> set (chain_of (entity_id b) bs)" by (simp add: chain_of_def)
  from chain_linked_hashes [OF linked this] have valid: "block_hash b = compute_hash H b" .
  from run_observed [OF run cs b] have ob: "observed_at b \<noteq> []" .
  have "compute_hash H (post_init H clock env_node' ?b') = compute_hash H ?b'"
    using ob by (simp add: compute_hash_def hash_fields_post_init) (simp add: hash_fields_def)
  with sep valid have bad: "compute_hash H (post_init H clock env_node' ?b') \<noteq> block_hash ?b'"
    by simp
  have w': "block_hash b \<in> set (lrange_to (block_lists ?st' (entity_id b)) (limit - 1))"
    using w by simp
  have s': "block_store ?st' (block_hash b) = Some ?b'" by simp
  from verify_chain_reports_bad_block [OF w' s' bad]
    \<open>compute_hash H (post_init H clock env_node' ?b') = compute_hash H ?b'\<close>
  have t: "hash_mismatch (block_index b) (compute_hash H ?b') (block_hash b)
        \<in> set (breaks (verify_chain H clock env_node' ?st' (entity_id b) limit))
    \<and> \<not> verified (verify_chain H clock env_node' ?st' (entity_id b) limit)"
    by simp
  from verify_chain_fresh [OF run cf cs, of clock env_node' e limit] t
  show ?thesis by simp
qed

theorem verify_chain_fresh_and_tamper_evident_witness:
  "run_creates toy_digest ''node-0'' two_calls = (example_store, [first_block, second_block])
   \<and> collision_free [first_block, second_block]
   \<and> clocks_set two_calls
   \<and> first_block \<in> set [first_block, second_block]
   \<and> block_hash first_block
       \<in> set (lrange_to (block_lists example_store (entity_id first_block)) (default_limit - 1))
   \<and> compute_hash toy_digest tampered_block \<noteq> compute_hash toy_digest first_block
   \<and> verified (verify_chain toy_digest verify_clock ''node-0'' example_store ''example.com''
        default_limit)
   \<and> breaks (verify_chain toy_digest verify_clock ''node-0'' example_store ''example.com''
        default_limit) = []
   \<and> hash_mismatch 0 (compute_hash toy_digest tampered_block) first_hash
       \<in> set (breaks (verify_chain toy_digest verify_clock ''node-0'' tampered_store
                 ''example.com'' default_limit))
   \<and> \<not> verified (verify_chain toy_digest verify_clock ''node-0'' tampered_store ''example.com''
          default_limit)"
proof -
  have b: "first_block \<in> set [first_block, second_block]" by simp
  have w: "block_hash first_block
       \<in> set (lrange_to (block_lists example_store (entity_id first_block)) (default_limit - 1))"
    by (simp add: example_block_fields example_store_lists lrange_to_def default_limit_def)
  have sep: "compute_hash toy_digest tampered_block \<noteq> compute_hash toy_digest first_block"
    using tampered_hash_differs by (simp add: example_hashes_valid)
  have tb: "first_block\<lparr> signals := [''k'' \<mapsto> PInt 7] \<rparr> = tampered_block"
    by (simp add: tampered_block_def)
  have ts: "example_store\<lparr> block_store := (block_store example_store)
      (first_hash \<mapsto> tampered_block) \<rparr> = tampered_store"
    by (simp add: tampered_store_def)
  note t = verify_chain_fresh_and_tamper_evident [OF example_run example_collision_free
      example_clocks b w, of "[''k'' \<mapsto> PInt 7]" verify_clock "''node-0''"
      "''example.com''", unfolded tb ts example_block_fields, OF sep]
  from t example_run example_collision_free example_clocks b w sep
  show ?thesis by blast
qed

text \<open>
  C10.  \<open>compute_hash\<close> reads entity_id, sensor, block_index, observed_at, signals and
  prev_hash only: two blocks that agree on these six fields have the same hash, whatever
  their delta, collection_time_ms, sensor_version, node_id and observed_at_unix.  Changing
  these five fields of a stored block changes nothing in the result of \<open>verify_chain\<close>.
\<close>

theorem hash_covers_six_fields:
  assumes "block_store st h = Some b"
    and "entity_id b1 = entity_id b2" and "sensor b1 = sensor b2"
    and "block_index b1 = block_index b2" and "observed_at b1 = observed_at b2"
    and "signals b1 = signals b2" and "prev_hash b1 = prev_hash b2"
  shows "compute_hash H b1 = compute_hash H b2
    \<and> compute_hash H (b\<lparr> delta := d, collection_time_ms := ct, sensor_version := sv,
                          node_id := nd, observed_at_unix := u \<rparr>) = compute_hash H b
    \<and> verify_chain H clock env_node
         (st\<lparr> block_store := (block_store st)(h \<mapsto>
               b\<lparr> delta := d, collection_time_ms := ct, sensor_version := sv,
                  node_id := nd, observed_at_unix := u \<rparr>) \<rparr>) e limit
       = verify_chain H clock env_node st e limit"
proof -
  let ?b' = "b\<lparr> delta := d, collection_time_ms := ct, sensor_version := sv,
                  node_id := nd, observed_at_unix := u \<rparr>"
  have 1: "compute_hash H b1 = compute_hash H b2"
    using assms(2-7) by (simp add: compute_hash_def hash_fields_def)
  have 2: "compute_hash H ?b' = compute_hash H b"
    by (simp add: compute_hash_def hash_fields_def)
  have sh: "same_hashed ?b' b" by (simp add: same_hashed_def hash_fields_def)
  have "\<And>h'. rel_option same_hashed
      (block_store (st\<lparr> block_store := (block_store st)(h \<mapsto> ?b') \<rparr>) h') (block_store st h')"
    using assms(1) sh by (simp add: rel_option_same_refl)
  from verify_chain_same [OF this, of e H clock env_node limit] 1 2
  show ?thesis by simp
qed

theorem hash_covers_six_fields_witness:
  "block_store example_store first_hash = Some first_block
   \<and> entity_id first_block = entity_id relabelled_block
   \<and> sensor first_block = sensor relabelled_block
   \<and> block_index first_block = block_index relabelled_block
   \<and> observed_at first_block = observed_at relabelled_block
   \<and> signals first_block = signals relabelled_block
   \<and> prev_hash first_block = prev_hash relabelled_block
   \<and> node_id first_block \<noteq> node_id relabelled_block
   \<and> collection_time_ms first_block \<noteq> collection_time_ms relabelled_block
   \<and> compute_hash toy_digest first_block = compute_hash toy_digest relabelled_block
   \<and> verify_chain toy_digest verify_clock ''node-0''
        (example_store\<lparr> block_store := (block_store example_store)(first_hash \<mapsto> relabelled_block) \<rparr>)
        ''example.com'' default_limit
      = verify_chain toy_digest verify_clock ''node-0'' example_store ''example.com'' default_limit"
proof -
  have f: "entity_id first_block = entity_id relabelled_block"
    "sensor first_block = sensor relabelled_block"
    "block_index first_block = block_index relabelled_block"
    "observed_at first_block = observed_at relabelled_block"
    "signals first_block = signals relabelled_block"
    "prev_hash first_block = prev_hash relabelled_block"
    by (simp_all add: relabelled_block_def)
  have g: "node_id first_block \<noteq> node_id relabelled_block"
    "collection_time_ms first_block \<noteq> collection_time_ms relabelled_block"
    by (simp_all add: relabelled_block_def first_block_def)
  have rb: "first_block\<lparr> delta := [''k'' \<mapsto> \<lparr> was = PInt 0, now = PInt 1, severity = None,
                                      alert = None \<rparr>],
                  collection_time_ms := 999, sensor_version := ''9.9.9'',
                  node_id := ''node-7'', observed_at_unix := 0 \<rparr> = relabelled_block"
    by (simp add: relabelled_block_def)
  note t = hash_covers_six_fields [OF example_store_blocks(1) f,
      where H = toy_digest
        and d = "[''k'' \<mapsto> \<lparr> was = PInt 0, now = PInt 1, severity = None, alert = None \<rparr>]"
        and ct = 999 and sv = "''9.9.9''" and nd = "''node-7''" and u = 0
        and clock = verify_clock and env_node = "''node-0''" and e = "''example.com''"
        and limit = default_limit, unfolded rb]
  from t f g example_store_blocks(1) show ?thesis by blast
qed

end
